theory Spec2Isabelle
  imports Main "HOL-Library.AList" "HOL-Library.Sublist"
begin

section \<open>Data model of the introspection parser (src/parser/types.ts)\<close>

datatype TypeKind = SCALAR | OBJECT | INTERFACE | UNION | ENUM | INPUT_OBJECT | LIST | NON_NULL

text \<open>
  \<^verbatim>\<open>IntrospectionTypeRef { kind; name: string | null; ofType: IntrospectionTypeRef | null }\<close>.
  A reference read from a JSON document is a finite chain, hence a datatype.
\<close>

datatype IntrospectionTypeRef =
  IntrospectionTypeRef (ref_kind: TypeKind) (ref_name: "string option")
    (ofType: "IntrospectionTypeRef option")

record IntrospectionField =
  field_name :: string
  field_description :: "string option"
  field_type :: IntrospectionTypeRef
  isDeprecated :: "bool option"
  deprecationReason :: "string option"

record IntrospectionType =
  type_kind :: TypeKind
  type_name :: string
  type_description :: "string option"
  type_fields :: "IntrospectionField list option"
  type_interfaces :: "IntrospectionTypeRef list option"
  type_possibleTypes :: "IntrospectionTypeRef list option"
  enumValues :: "(string \<times> string option) list option"
  inputFields :: "IntrospectionField list option"

text \<open>
  \<^verbatim>\<open>IntrospectionSchema\<close>: \<open>queryType\<close> is \<^verbatim>\<open>{ name: string } | null\<close>, kept as the optional
  name. The parser guards against a missing \<^verbatim>\<open>types\<close> member and against a missing
  \<^verbatim>\<open>__schema\<close> member, so both are optional here. The \<^verbatim>\<open>data\<close> member is optional as
  well: \<^verbatim>\<open>extractGraph\<close> takes \<^verbatim>\<open>{ data: any }\<close>, so it can be null or absent (\<open>None\<close>).
\<close>

record IntrospectionSchema =
  queryType :: "string option"
  mutationType :: "string option"
  subscriptionType :: "string option"
  types :: "IntrospectionType list option"

record IntrospectionResult =
  schema :: "IntrospectionSchema option"

record IntrospectionData =
  data :: "IntrospectionResult option"

record ParsedIntrospection =
  parsed_types :: "IntrospectionType list"
  queryTypeName :: "string option"

section \<open>Data model of the graph (src/nodes/types.ts, src/graph/types.ts)\<close>

record FieldInfo =
  info_name :: string
  typeName :: string
  info_description :: "string option"

text \<open>
  \<^verbatim>\<open>TypeNode\<close>; its member \<^verbatim>\<open>fields\<close> is \<open>node_fields\<close> here, the plain name being taken by
  the record package.
\<close>

record TypeNode =
  name :: string
  kind :: TypeKind
  isComposite :: bool
  isRelay :: bool
  isBuiltIn :: bool
  node_fields :: "FieldInfo list option"
  interfaces :: "string list option"
  possibleTypes :: "string list option"
  description :: "string option"

datatype EdgeType = FIELD | IMPLEMENTS | UNION_MEMBER

record Edge =
  source :: string
  target :: string
  edgeType :: EdgeType
  fieldName :: "string option"

text \<open>
  A JavaScript \<^verbatim>\<open>Map\<close> keeps its keys in insertion order and \<^verbatim>\<open>set\<close> on a present key
  replaces the value in place: an association list with \<^const>\<open>AList.update\<close> for
  \<^verbatim>\<open>set\<close> and \<^const>\<open>map_of\<close> for \<^verbatim>\<open>get\<close>.
\<close>

record TypeGraph =
  nodes :: "(string \<times> TypeNode) list"
  edges :: "Edge list"
  rootType :: TypeNode

section \<open>Errors\<close>

text \<open>
  The code throws plain \<^verbatim>\<open>Error\<close> objects that differ in their message. \<open>TypeError p\<close>
  is what the runtime throws when the property \<open>p\<close> of \<^verbatim>\<open>null\<close> or \<^verbatim>\<open>undefined\<close> is read:
  \<^verbatim>\<open>__schema\<close> in the parser when \<^verbatim>\<open>data\<close> is null or absent, and \<^verbatim>\<open>fields\<close> in the loop
  if the unchecked \<^verbatim>\<open>nodes.get(currentTypeName)!\<close> found no node.
\<close>

datatype error = Error string | TypeError string

definition InvalidInputError :: error where
  "InvalidInputError = Error ''Invalid introspection data: missing __schema.types''"

definition NoRootTypeError :: error where
  "NoRootTypeError = Error ''No query type found in schema''"

definition RootTypeNotFoundError :: "string \<Rightarrow> error" where
  "RootTypeNotFoundError q = Error (''Root type '' @ q @ '' not found'')"

section \<open>String helpers\<close>

definition startsWith :: "string \<Rightarrow> string \<Rightarrow> bool" where
  "startsWith s p = prefix p s"

definition endsWith :: "string \<Rightarrow> string \<Rightarrow> bool" where
  "endsWith s p = suffix p s"

text \<open>\<^verbatim>\<open>x || d\<close> on an optional string: \<^verbatim>\<open>null\<close> and the empty string are both falsy.\<close>

definition or_default :: "string option \<Rightarrow> string \<Rightarrow> string" where
  "or_default x d = (case x of None \<Rightarrow> d | Some s \<Rightarrow> if s = [] then d else s)"

section \<open>The parser (src/parser/parseIntrospection.ts)\<close>

definition parseIntrospection :: "IntrospectionData \<Rightarrow> error + ParsedIntrospection" where
  "parseIntrospection introspectionData =
     (case data introspectionData of
        None \<Rightarrow> Inl (TypeError ''__schema'')
      | Some d \<Rightarrow>
          (case schema d of
             None \<Rightarrow> Inl InvalidInputError
           | Some sch \<Rightarrow>
               (case types sch of
                  None \<Rightarrow> Inl InvalidInputError
                | Some ts \<Rightarrow>
                    Inr \<lparr> parsed_types = filter (\<lambda>t. \<not> startsWith (type_name t) ''__'') ts,
                          queryTypeName =
                            (case queryType sch of
                               None \<Rightarrow> None
                             | Some n \<Rightarrow> if n = [] then None else Some n) \<rparr>)))"

fun unwrapType :: "IntrospectionTypeRef option \<Rightarrow> string option" where
  "unwrapType None = None"
| "unwrapType (Some (IntrospectionTypeRef k n w)) =
     (if k = LIST \<or> k = NON_NULL then unwrapType w else n)"

section \<open>The normalizer (src/nodes/createTypeNode.ts)\<close>

definition BUILT_IN_SCALARS :: "string list" where
  "BUILT_IN_SCALARS = [''String'', ''Int'', ''Float'', ''Boolean'', ''ID'']"

definition extractFields :: "IntrospectionType \<Rightarrow> FieldInfo list option" where
  "extractFields typeData =
     (case type_fields typeData of
        None \<Rightarrow> None
      | Some fs \<Rightarrow>
          if length fs = 0 then None
          else Some (map (\<lambda>field.
                 \<lparr> info_name = field_name field,
                   typeName = or_default (unwrapType (Some (field_type field))) ''Unknown'',
                   info_description = field_description field \<rparr>) fs))"

definition unwrapNames :: "IntrospectionTypeRef list option \<Rightarrow> string list option" where
  "unwrapNames refs =
     (case refs of
        None \<Rightarrow> None
      | Some rs \<Rightarrow> Some (map the (filter (\<lambda>n. n \<noteq> None) (map (\<lambda>r. unwrapType (Some r)) rs))))"

definition createTypeNode :: "IntrospectionType \<Rightarrow> TypeNode" where
  "createTypeNode typeData =
     \<lparr> name = type_name typeData,
       kind = type_kind typeData,
       isComposite = (type_kind typeData = OBJECT \<or> type_kind typeData = INTERFACE
                      \<or> type_kind typeData = UNION),
       isRelay = (endsWith (type_name typeData) ''Connection''
                  \<or> endsWith (type_name typeData) ''Edge''
                  \<or> type_name typeData = ''PageInfo''),
       isBuiltIn = (startsWith (type_name typeData) ''__''
                    \<or> type_name typeData \<in> set BUILT_IN_SCALARS),
       node_fields = extractFields typeData,
       interfaces = unwrapNames (type_interfaces typeData),
       possibleTypes = unwrapNames (type_possibleTypes typeData),
       description = type_description typeData \<rparr>"

section \<open>The extractor (src/graph/extractGraph.ts)\<close>

type_synonym typeMap = "(string \<times> IntrospectionType) list"

definition buildTypeMap :: "IntrospectionType list \<Rightarrow> typeMap" where
  "buildTypeMap ts = foldl (\<lambda>m t. AList.update (type_name t) t m) [] ts"

text \<open>The four mutable locals of \<^verbatim>\<open>extractGraph\<close>.\<close>

record bfs_state =
  s_nodes :: "(string \<times> TypeNode) list"
  s_edges :: "Edge list"
  visited :: "string set"
  queue :: "string list"

text \<open>
  The block "add target node if not visited", which the three inner loops repeat word
  for word (lines 69-77, 92-100 and 115-123).
\<close>

definition discover :: "typeMap \<Rightarrow> string \<Rightarrow> bfs_state \<Rightarrow> bfs_state" where
  "discover tm targetTypeName st =
     (if targetTypeName \<notin> visited st then
        (case map_of tm targetTypeName of
           None \<Rightarrow> st
         | Some targetTypeData \<Rightarrow>
             st \<lparr> s_nodes := AList.update targetTypeName (createTypeNode targetTypeData) (s_nodes st),
                  visited := insert targetTypeName (visited st),
                  queue := queue st @ [targetTypeName] \<rparr>)
      else st)"

definition push_edge :: "Edge \<Rightarrow> bfs_state \<Rightarrow> bfs_state" where
  "push_edge e st = st \<lparr> s_edges := s_edges st @ [e] \<rparr>"

definition field_step :: "typeMap \<Rightarrow> string \<Rightarrow> bfs_state \<Rightarrow> FieldInfo \<Rightarrow> bfs_state" where
  "field_step tm currentTypeName st field =
     discover tm (typeName field)
       (push_edge \<lparr> source = currentTypeName, target = typeName field,
                    edgeType = FIELD, fieldName = Some (info_name field) \<rparr> st)"

definition interface_step :: "typeMap \<Rightarrow> string \<Rightarrow> bfs_state \<Rightarrow> string \<Rightarrow> bfs_state" where
  "interface_step tm currentTypeName st interfaceName =
     discover tm interfaceName
       (push_edge \<lparr> source = currentTypeName, target = interfaceName,
                    edgeType = IMPLEMENTS, fieldName = None \<rparr> st)"

definition member_step :: "typeMap \<Rightarrow> string \<Rightarrow> bfs_state \<Rightarrow> string \<Rightarrow> bfs_state" where
  "member_step tm currentTypeName st memberName =
     discover tm memberName
       (push_edge \<lparr> source = currentTypeName, target = memberName,
                    edgeType = UNION_MEMBER, fieldName = None \<rparr> st)"

text \<open>The body of the \<^verbatim>\<open>while\<close> loop after the dequeue and the lookup: three loops in a row.\<close>

definition expand :: "typeMap \<Rightarrow> string \<Rightarrow> TypeNode \<Rightarrow> bfs_state \<Rightarrow> bfs_state" where
  "expand tm currentTypeName currentNode st =
     (let st1 = (case node_fields currentNode of
                   None \<Rightarrow> st
                 | Some fs \<Rightarrow> foldl (field_step tm currentTypeName) st fs);
          st2 = (case interfaces currentNode of
                   None \<Rightarrow> st1
                 | Some ifs \<Rightarrow> foldl (interface_step tm currentTypeName) st1 ifs);
          st3 = (case possibleTypes currentNode of
                   None \<Rightarrow> st2
                 | Some ms \<Rightarrow> foldl (member_step tm currentTypeName) st2 ms)
      in st3)"

text \<open>
  One iteration of the \<^verbatim>\<open>while\<close> loop on a non-empty queue: \<^verbatim>\<open>queue.shift()\<close>, the
  unchecked \<^verbatim>\<open>nodes.get\<close>, then the three loops.
\<close>

definition bfs_body :: "typeMap \<Rightarrow> string \<Rightarrow> string list \<Rightarrow> bfs_state \<Rightarrow> error + bfs_state" where
  "bfs_body tm currentTypeName rest st =
     (case map_of (s_nodes st) currentTypeName of
        None \<Rightarrow> Inl (TypeError ''fields'')
      | Some currentNode \<Rightarrow> Inr (expand tm currentTypeName currentNode (st \<lparr> queue := rest \<rparr>)))"

text \<open>The \<^verbatim>\<open>while (queue.length > 0)\<close> loop; \<open>None\<close> stands for a loop that never ends.\<close>

partial_function (option) bfs :: "typeMap \<Rightarrow> bfs_state \<Rightarrow> (error + bfs_state) option" where
  "bfs tm st =
     (case queue st of
        [] \<Rightarrow> Some (Inr st)
      | currentTypeName # rest \<Rightarrow>
          (case bfs_body tm currentTypeName rest st of
             Inl e \<Rightarrow> Some (Inl e)
           | Inr st' \<Rightarrow> bfs tm st'))"

declare bfs.simps [code]

text \<open>
  The names the loop dequeues, in the order of the \<^verbatim>\<open>queue.shift()\<close> calls: the same
  loop, recording \<open>currentTypeName\<close> at each iteration.
\<close>

partial_function (option) dequeued :: "typeMap \<Rightarrow> bfs_state \<Rightarrow> string list option" where
  "dequeued tm st =
     (case queue st of
        [] \<Rightarrow> Some []
      | currentTypeName # rest \<Rightarrow>
          (case bfs_body tm currentTypeName rest st of
             Inl e \<Rightarrow> Some [currentTypeName]
           | Inr st' \<Rightarrow> Option.bind (dequeued tm st') (\<lambda>ns. Some (currentTypeName # ns))))"

declare dequeued.simps [code]

definition initial_state :: "TypeNode \<Rightarrow> bfs_state" where
  "initial_state rootNode =
     \<lparr> s_nodes = AList.update (name rootNode) rootNode [],
       s_edges = [],
       visited = insert (name rootNode) {},
       queue = [] @ [name rootNode] \<rparr>"

definition extractGraph :: "IntrospectionData \<Rightarrow> (error + TypeGraph) option" where
  "extractGraph introspectionData =
     (case parseIntrospection introspectionData of
        Inl e \<Rightarrow> Some (Inl e)
      | Inr parsed \<Rightarrow>
          (case queryTypeName parsed of
             None \<Rightarrow> Some (Inl NoRootTypeError)
           | Some q \<Rightarrow>
               if q = [] then Some (Inl NoRootTypeError)
               else
                 (let tm = buildTypeMap (parsed_types parsed) in
                  case map_of tm q of
                    None \<Rightarrow> Some (Inl (RootTypeNotFoundError q))
                  | Some rootTypeData \<Rightarrow>
                      (let rootNode = createTypeNode rootTypeData in
                       case bfs tm (initial_state rootNode) of
                         None \<Rightarrow> None
                       | Some (Inl e) \<Rightarrow> Some (Inl e)
                       | Some (Inr st) \<Rightarrow>
                           Some (Inr \<lparr> nodes = s_nodes st, edges = s_edges st,
                                       rootType = rootNode \<rparr>)))))"


section \<open>Notions used to state the properties\<close>

text \<open>The names a node refers to: field targets, then interfaces, then union members.\<close>

definition node_targets :: "TypeNode \<Rightarrow> string list" where
  "node_targets n =
     (case node_fields n of None \<Rightarrow> [] | Some fs \<Rightarrow> map typeName fs)
     @ (case interfaces n of None \<Rightarrow> [] | Some ifs \<Rightarrow> ifs)
     @ (case possibleTypes n of None \<Rightarrow> [] | Some ms \<Rightarrow> ms)"

text \<open>
  The edge group of one source: a FIELD edge per field in declaration order, then an
  IMPLEMENTS edge per interface, then a UNION_MEMBER edge per union member.
\<close>

definition node_edges :: "string \<Rightarrow> TypeNode \<Rightarrow> Edge list" where
  "node_edges src n =
     (case node_fields n of None \<Rightarrow> []
      | Some fs \<Rightarrow> map (\<lambda>f. \<lparr> source = src, target = typeName f, edgeType = FIELD,
                              fieldName = Some (info_name f) \<rparr>) fs)
     @ (case interfaces n of None \<Rightarrow> []
        | Some ifs \<Rightarrow> map (\<lambda>i. \<lparr> source = src, target = i, edgeType = IMPLEMENTS,
                                 fieldName = None \<rparr>) ifs)
     @ (case possibleTypes n of None \<Rightarrow> []
        | Some ms \<Rightarrow> map (\<lambda>m. \<lparr> source = src, target = m, edgeType = UNION_MEMBER,
                                fieldName = None \<rparr>) ms)"

definition edge_rel :: "Edge list \<Rightarrow> (string \<times> string) set" where
  "edge_rel es = (\<lambda>e. (source e, target e)) ` set es"

text \<open>
  The references of a raw record, read off the record itself: the base names that its
  fields' types, its interfaces and its possible types resolve to (a reference that
  resolves to null names nothing).
\<close>

definition field_refs :: "IntrospectionType \<Rightarrow> string list" where
  "field_refs d =
     (case type_fields d of
        None \<Rightarrow> []
      | Some fs \<Rightarrow> List.map_filter (\<lambda>f. unwrapType (Some (field_type f))) fs)"

definition interface_refs :: "IntrospectionType \<Rightarrow> string list" where
  "interface_refs d =
     (case type_interfaces d of
        None \<Rightarrow> []
      | Some rs \<Rightarrow> List.map_filter (\<lambda>r. unwrapType (Some r)) rs)"

definition member_refs :: "IntrospectionType \<Rightarrow> string list" where
  "member_refs d =
     (case type_possibleTypes d of
        None \<Rightarrow> []
      | Some rs \<Rightarrow> List.map_filter (\<lambda>r. unwrapType (Some r)) rs)"

text \<open>
  The reference relation of the schema, restricted to names with a record in the lookup
  table: \<open>a\<close> refers to \<open>b\<close> when \<open>a\<close>'s record has a field, an interface or a union member
  whose reference resolves to \<open>b\<close>, and \<open>b\<close> has a record.
\<close>

definition raw_references :: "typeMap \<Rightarrow> (string \<times> string) set" where
  "raw_references tm =
     {(a, b). \<exists>d. map_of tm a = Some d
                \<and> b \<in> set (field_refs d) \<union> set (interface_refs d) \<union> set (member_refs d)
                \<and> map_of tm b \<noteq> None}"

text \<open>The same relation without the field references that resolve to the empty name.\<close>

definition named_references :: "typeMap \<Rightarrow> (string \<times> string) set" where
  "named_references tm =
     {(a, b). \<exists>d. map_of tm a = Some d
                \<and> b \<in> (set (field_refs d) - {[]}) \<union> set (interface_refs d) \<union> set (member_refs d)
                \<and> map_of tm b \<noteq> None}"

text \<open>A chain of wrapper layers, outermost first, around a leaf reference.\<close>

fun wrap :: "TypeKind list \<Rightarrow> IntrospectionTypeRef \<Rightarrow> IntrospectionTypeRef" where
  "wrap [] leaf = leaf"
| "wrap (k # ks) leaf = IntrospectionTypeRef k None (Some (wrap ks leaf))"

text \<open>The states at the head of the \<^verbatim>\<open>while\<close> loop, from a given first state.\<close>

inductive loop_head :: "typeMap \<Rightarrow> bfs_state \<Rightarrow> bfs_state \<Rightarrow> bool" for tm st0 where
  start: "loop_head tm st0 st0"
| iterate: "loop_head tm st0 st \<Longrightarrow> queue st = cur # rest \<Longrightarrow>
            bfs_body tm cur rest st = Inr st' \<Longrightarrow> loop_head tm st0 st'"

subsection \<open>Auxiliary notions of the proofs\<close>

definition discover_all :: "typeMap \<Rightarrow> string list \<Rightarrow> bfs_state \<Rightarrow> bfs_state" where
  "discover_all tm ts st = foldl (\<lambda>s t. discover tm t s) st ts"

definition push_edges :: "Edge list \<Rightarrow> bfs_state \<Rightarrow> bfs_state" where
  "push_edges es st = st \<lparr> s_edges := s_edges st @ es \<rparr>"

text \<open>The targets that a run of \<open>discover\<close> over \<open>ts\<close> adds, given the visited set \<open>V\<close>.\<close>

fun fresh :: "typeMap \<Rightarrow> string set \<Rightarrow> string list \<Rightarrow> string list" where
  "fresh tm V [] = []"
| "fresh tm V (t # ts) =
     (if t \<notin> V \<and> map_of tm t \<noteq> None then t # fresh tm (insert t V) ts else fresh tm V ts)"

definition nd :: "typeMap \<Rightarrow> string \<Rightarrow> TypeNode" where
  "nd tm k = createTypeNode (the (map_of tm k))"

text \<open>
  The loop invariant, with \<open>dn\<close> the names dequeued so far: the node mapping lists the
  dequeued names and then the queue, each with the node of its record; the edges are the
  edge groups of the dequeued names in order; every target with a record of a dequeued
  name is visited; and every visited name is reachable from the root along the edges.
\<close>

definition Inv :: "typeMap \<Rightarrow> string \<Rightarrow> string list \<Rightarrow> bfs_state \<Rightarrow> bool" where
  "Inv tm root dn st \<longleftrightarrow>
     s_nodes st = map (\<lambda>k. (k, nd tm k)) (dn @ queue st) \<and>
     visited st = set (dn @ queue st) \<and>
     distinct (dn @ queue st) \<and>
     (\<forall>k\<in>set (dn @ queue st). map_of tm k \<noteq> None) \<and>
     s_edges st = concat (map (\<lambda>k. node_edges k (nd tm k)) dn) \<and>
     (\<forall>k\<in>set dn. \<forall>t\<in>set (node_targets (nd tm k)).
         map_of tm t \<noteq> None \<longrightarrow> t \<in> set (dn @ queue st)) \<and>
     (\<forall>k\<in>set (dn @ queue st). (root, k) \<in> (edge_rel (s_edges st))\<^sup>*)"

section \<open>Concrete schemas\<close>

abbreviation named :: "TypeKind \<Rightarrow> string \<Rightarrow> IntrospectionTypeRef" where
  "named k n \<equiv> IntrospectionTypeRef k (Some n) None"

abbreviation field :: "string \<Rightarrow> IntrospectionTypeRef \<Rightarrow> IntrospectionField" where
  "field n t \<equiv> \<lparr> field_name = n, field_description = None, field_type = t,
                  isDeprecated = None, deprecationReason = None \<rparr>"

abbreviation object :: "string \<Rightarrow> IntrospectionField list \<Rightarrow> IntrospectionType" where
  "object n fs \<equiv> \<lparr> type_kind = OBJECT, type_name = n, type_description = None,
                    type_fields = Some fs, type_interfaces = Some [],
                    type_possibleTypes = None, enumValues = None, inputFields = None \<rparr>"

abbreviation document :: "string option \<Rightarrow> IntrospectionType list \<Rightarrow> IntrospectionData" where
  "document q ts \<equiv> \<lparr> data = Some \<lparr> schema = Some \<lparr> queryType = q, mutationType = None,
                      subscriptionType = None, types = Some ts \<rparr> \<rparr> \<rparr>"

abbreviation info :: "string \<Rightarrow> string \<Rightarrow> FieldInfo" where
  "info n t \<equiv> \<lparr> info_name = n, typeName = t, info_description = None \<rparr>"

abbreviation object_node :: "string \<Rightarrow> FieldInfo list \<Rightarrow> TypeNode" where
  "object_node n fs \<equiv> \<lparr> name = n, kind = OBJECT, isComposite = True, isRelay = False,
                         isBuiltIn = False, node_fields = Some fs, interfaces = Some [],
                         possibleTypes = None, description = None \<rparr>"

abbreviation field_edge :: "string \<Rightarrow> string \<Rightarrow> string \<Rightarrow> Edge" where
  "field_edge s t f \<equiv> \<lparr> source = s, target = t, edgeType = FIELD, fieldName = Some f \<rparr>"

text \<open>
  The end-to-end scenario: \<^verbatim>\<open>Query { device: DeviceType }\<close>,
  \<^verbatim>\<open>DeviceType { id: ID, cable: CableType }\<close>, \<^verbatim>\<open>CableType { id: ID }\<close>, first without a
  record for \<^verbatim>\<open>ID\<close>, then with the scalar declared.
\<close>

definition device_types :: "IntrospectionType list" where
  "device_types =
     [object ''Query'' [field ''device'' (named OBJECT ''DeviceType'')],
      object ''DeviceType'' [field ''id'' (named SCALAR ''ID''),
                             field ''cable'' (named OBJECT ''CableType'')],
      object ''CableType'' [field ''id'' (named SCALAR ''ID'')]]"

definition ID_type :: IntrospectionType where
  "ID_type = \<lparr> type_kind = SCALAR, type_name = ''ID'', type_description = None,
               type_fields = None, type_interfaces = None, type_possibleTypes = None,
               enumValues = None, inputFields = None \<rparr>"

definition device_doc :: IntrospectionData where
  "device_doc = document (Some ''Query'') device_types"

definition device_doc_ID :: IntrospectionData where
  "device_doc_ID = document (Some ''Query'') (device_types @ [ID_type])"

definition Query_node :: TypeNode where
  "Query_node = object_node ''Query'' [info ''device'' ''DeviceType'']"

definition DeviceType_node :: TypeNode where
  "DeviceType_node = object_node ''DeviceType'' [info ''id'' ''ID'', info ''cable'' ''CableType'']"

definition CableType_node :: TypeNode where
  "CableType_node = object_node ''CableType'' [info ''id'' ''ID'']"

definition ID_node :: TypeNode where
  "ID_node = \<lparr> name = ''ID'', kind = SCALAR, isComposite = False, isRelay = False,
               isBuiltIn = True, node_fields = None, interfaces = None,
               possibleTypes = None, description = None \<rparr>"

definition device_edges :: "Edge list" where
  "device_edges =
     [field_edge ''Query'' ''DeviceType'' ''device'',
      field_edge ''DeviceType'' ''ID'' ''id'',
      field_edge ''DeviceType'' ''CableType'' ''cable'',
      field_edge ''CableType'' ''ID'' ''id'']"

definition device_graph :: TypeGraph where
  "device_graph =
     \<lparr> nodes = [(''Query'', Query_node), (''DeviceType'', DeviceType_node),
                 (''CableType'', CableType_node)],
       edges = device_edges, rootType = Query_node \<rparr>"

definition device_graph_ID :: TypeGraph where
  "device_graph_ID =
     \<lparr> nodes = [(''Query'', Query_node), (''DeviceType'', DeviceType_node),
                 (''ID'', ID_node), (''CableType'', CableType_node)],
       edges = device_edges, rootType = Query_node \<rparr>"

text \<open>
  A cyclic schema with a meta-type, two fields of one target, an interface, union members
  and targets without a record (\<^verbatim>\<open>Ghost\<close>, \<^verbatim>\<open>ID\<close>, \<^verbatim>\<open>Phantom\<close>).
\<close>

definition Meta_type :: IntrospectionType where
  "Meta_type = object ''__Type'' [field ''name'' (named SCALAR ''String'')]"

definition Root_type :: IntrospectionType where
  "Root_type = object ''Query''
     [field ''a'' (named OBJECT ''Item''),
      field ''b'' (IntrospectionTypeRef NON_NULL None (Some
                    (IntrospectionTypeRef LIST None (Some (named OBJECT ''Item''))))),
      field ''ghost'' (named OBJECT ''Ghost'')]"

definition Item_type :: IntrospectionType where
  "Item_type = \<lparr> type_kind = OBJECT, type_name = ''Item'', type_description = None,
                 type_fields = Some [field ''owner'' (named OBJECT ''Query'')],
                 type_interfaces = Some [named INTERFACE ''Node''],
                 type_possibleTypes = None, enumValues = None, inputFields = None \<rparr>"

definition Node_type :: IntrospectionType where
  "Node_type = \<lparr> type_kind = INTERFACE, type_name = ''Node'', type_description = None,
                 type_fields = Some [field ''id'' (named SCALAR ''ID'')],
                 type_interfaces = None,
                 type_possibleTypes = Some [named OBJECT ''Item'', named OBJECT ''Phantom''],
                 enumValues = None, inputFields = None \<rparr>"

definition cyclic_doc :: IntrospectionData where
  "cyclic_doc = document (Some ''Query'') [Meta_type, Root_type, Item_type, Node_type]"

definition cyclic_parsed :: ParsedIntrospection where
  "cyclic_parsed = \<lparr> parsed_types = [Root_type, Item_type, Node_type],
                     queryTypeName = Some ''Query'' \<rparr>"

definition Root_node :: TypeNode where
  "Root_node = object_node ''Query'' [info ''a'' ''Item'', info ''b'' ''Item'', info ''ghost'' ''Ghost'']"

definition Item_node :: TypeNode where
  "Item_node = \<lparr> name = ''Item'', kind = OBJECT, isComposite = True, isRelay = False,
                 isBuiltIn = False, node_fields = Some [info ''owner'' ''Query''],
                 interfaces = Some [''Node''], possibleTypes = None, description = None \<rparr>"

definition Node_node :: TypeNode where
  "Node_node = \<lparr> name = ''Node'', kind = INTERFACE, isComposite = True, isRelay = False,
                 isBuiltIn = False, node_fields = Some [info ''id'' ''ID''],
                 interfaces = None, possibleTypes = Some [''Item'', ''Phantom''],
                 description = None \<rparr>"

definition cyclic_graph :: TypeGraph where
  "cyclic_graph =
     \<lparr> nodes = [(''Query'', Root_node), (''Item'', Item_node), (''Node'', Node_node)],
       edges =
         [field_edge ''Query'' ''Item'' ''a'',
          field_edge ''Query'' ''Item'' ''b'',
          field_edge ''Query'' ''Ghost'' ''ghost'',
          field_edge ''Item'' ''Query'' ''owner'',
          \<lparr> source = ''Item'', target = ''Node'', edgeType = IMPLEMENTS, fieldName = None \<rparr>,
          field_edge ''Node'' ''ID'' ''id'',
          \<lparr> source = ''Node'', target = ''Item'', edgeType = UNION_MEMBER, fieldName = None \<rparr>,
          \<lparr> source = ''Node'', target = ''Phantom'', edgeType = UNION_MEMBER, fieldName = None \<rparr>],
       rootType = Root_node \<rparr>"

text \<open>The three literal error scenarios.\<close>

definition no_types_doc :: IntrospectionData where
  "no_types_doc = \<lparr> data = Some \<lparr> schema = Some \<lparr> queryType = None, mutationType = None,
                     subscriptionType = None, types = None \<rparr> \<rparr> \<rparr>"

definition no_root_doc :: IntrospectionData where
  "no_root_doc = document None []"

definition root_missing_doc :: IntrospectionData where
  "root_missing_doc = document (Some ''Query'') [ID_type]"

text \<open>A record whose only field has a reference named by the empty string.\<close>

definition empty_ref_field :: IntrospectionField where
  "empty_ref_field = field ''f'' (IntrospectionTypeRef OBJECT (Some []) None)"

definition empty_ref_type :: IntrospectionType where
  "empty_ref_type = object ''Holder'' [empty_ref_field]"

text \<open>
  A schema whose root refers, by a field, to a record whose name is the empty string.
\<close>

definition Blank_type :: IntrospectionType where
  "Blank_type = object [] []"

definition blank_doc :: IntrospectionData where
  "blank_doc = document (Some ''Query'') [object ''Query'' [empty_ref_field], Blank_type]"

definition blank_parsed :: ParsedIntrospection where
  "blank_parsed = \<lparr> parsed_types = [object ''Query'' [empty_ref_field], Blank_type],
                    queryTypeName = Some ''Query'' \<rparr>"

definition blank_graph :: TypeGraph where
  "blank_graph =
     \<lparr> nodes = [(''Query'', object_node ''Query'' [info ''f'' ''Unknown''])],
       edges = [field_edge ''Query'' ''Unknown'' ''f''],
       rootType = object_node ''Query'' [info ''f'' ''Unknown''] \<rparr>"

text \<open>A document whose \<^verbatim>\<open>data\<close> member is null.\<close>

definition null_data_doc :: IntrospectionData where
  "null_data_doc = \<lparr> data = None \<rparr>"

section \<open>The lookup table\<close>

lemma foldl_update_Some:
  "map_of (foldl (\<lambda>m t. AList.update (type_name t) t m) m0 ts) k = Some d \<Longrightarrow>
     (d \<in> set ts \<and> type_name d = k) \<or> map_of m0 k = Some d"
  by (induction ts arbitrary: m0) (fastforce simp: update_conv' split: if_splits)+

lemma foldl_update_dom:
  "fst ` set (foldl (\<lambda>m t. AList.update (type_name t) t m) m0 ts) = fst ` set m0 \<union> type_name ` set ts"
  by (induction ts arbitrary: m0) (auto simp: dom_update)

lemma buildTypeMap_Some:
  "map_of (buildTypeMap ts) k = Some d \<Longrightarrow> d \<in> set ts \<and> type_name d = k"
  using foldl_update_Some [of "[]" ts k d] by (simp add: buildTypeMap_def)

lemma buildTypeMap_keys: "fst ` set (buildTypeMap ts) = type_name ` set ts"
  by (simp add: buildTypeMap_def foldl_update_dom)

lemma buildTypeMap_None: "(map_of (buildTypeMap ts) k = None) = (k \<notin> type_name ` set ts)"
  by (simp add: map_of_eq_None_iff buildTypeMap_keys)

section \<open>The inner loops\<close>

lemma update_fresh_key: "k \<notin> fst ` set al \<Longrightarrow> AList.update k v al = al @ [(k, v)]"
  by (induction al) auto

lemma fresh_set: "set (fresh tm V ts) = {t \<in> set ts. t \<notin> V \<and> map_of tm t \<noteq> None}"
  by (induction ts arbitrary: V) auto

lemma fresh_distinct: "distinct (fresh tm V ts)"
  by (induction ts arbitrary: V) (auto simp: fresh_set)

lemma discover_edges [simp]: "s_edges (discover tm t st) = s_edges st"
  by (simp add: discover_def split: option.splits)

lemma discover_all_edges [simp]: "s_edges (discover_all tm ts st) = s_edges st"
  unfolding discover_all_def by (induction ts arbitrary: st) simp_all

lemma discover_all_Nil [simp]: "discover_all tm [] st = st"
  by (simp add: discover_all_def)

lemma discover_all_Cons [simp]:
  "discover_all tm (t # ts) st = discover_all tm ts (discover tm t st)"
  by (simp add: discover_all_def)

lemma discover_all_append:
  "discover_all tm (ts @ us) st = discover_all tm us (discover_all tm ts st)"
  by (simp add: discover_all_def)

lemma push_edges_Nil [simp]: "push_edges [] st = st"
  by (simp add: push_edges_def)

lemma discover_push_edges: "discover tm t (push_edges es st) = push_edges es (discover tm t st)"
  by (simp add: discover_def push_edges_def split: option.splits)

lemma discover_all_push_edges:
  "discover_all tm ts (push_edges es st) = push_edges es (discover_all tm ts st)"
  by (induction ts arbitrary: st) (simp_all add: discover_push_edges)

lemma push_edges_append: "push_edges es (push_edges ds st) = push_edges (ds @ es) st"
  by (simp add: push_edges_def)

lemma foldl_steps:
  assumes "\<And>s x. step s x = discover tm (tgt x) (push_edge (mk x) s)"
  shows "foldl step st xs = push_edges (map mk xs) (discover_all tm (map tgt xs) st)"
proof (induction xs arbitrary: st)
  case Nil
  show ?case by simp
next
  case (Cons x xs)
  have "foldl step st (x # xs) = foldl step (step st x) xs" by simp
  also have "\<dots> = push_edges (map mk xs) (discover_all tm (map tgt xs) (step st x))"
    by (rule Cons.IH)
  also have "step st x = push_edges [mk x] (discover tm (tgt x) st)"
  proof -
    have "push_edge (mk x) st = push_edges [mk x] st"
      by (simp add: push_edges_def push_edge_def)
    then show ?thesis by (simp add: assms discover_push_edges)
  qed
  finally show ?case
    by (simp add: discover_all_push_edges push_edges_append)
qed

lemma expand_eq:
  "expand tm cur n st = push_edges (node_edges cur n) (discover_all tm (node_targets n) st)"
proof -
  have f: "foldl (field_step tm cur) s fs
      = push_edges (map (\<lambda>f. \<lparr> source = cur, target = typeName f, edgeType = FIELD,
                              fieldName = Some (info_name f) \<rparr>) fs) (discover_all tm (map typeName fs) s)" for s fs
    by (rule foldl_steps) (simp add: field_step_def)
  have i: "foldl (interface_step tm cur) s ifs
      = push_edges (map (\<lambda>i. \<lparr> source = cur, target = i, edgeType = IMPLEMENTS,
                                 fieldName = None \<rparr>) ifs) (discover_all tm (map (\<lambda>i. i) ifs) s)" for s ifs
    by (rule foldl_steps) (simp add: interface_step_def)
  have m: "foldl (member_step tm cur) s ms
      = push_edges (map (\<lambda>m. \<lparr> source = cur, target = m, edgeType = UNION_MEMBER,
                                fieldName = None \<rparr>) ms) (discover_all tm (map (\<lambda>i. i) ms) s)" for s ms
    by (rule foldl_steps) (simp add: member_step_def)
  show ?thesis
    unfolding expand_def Let_def node_edges_def node_targets_def
    by (simp add: f i m discover_all_append discover_all_push_edges push_edges_append
        split: option.splits)
qed

lemma discover_all_fresh:
  assumes "visited st = fst ` set (s_nodes st)"
  shows "discover_all tm ts st =
     st \<lparr> s_nodes := s_nodes st @ map (\<lambda>k. (k, nd tm k)) (fresh tm (visited st) ts),
          visited := visited st \<union> set (fresh tm (visited st) ts),
          queue := queue st @ fresh tm (visited st) ts \<rparr>"
  using assms
proof (induction ts arbitrary: st)
  case Nil
  show ?case by simp
next
  case (Cons t ts)
  show ?case
  proof (cases "t \<notin> visited st \<and> map_of tm t \<noteq> None")
    case False
    then have "discover tm t st = st"
      by (auto simp: discover_def split: option.splits)
    with False Cons show ?thesis by auto
  next
    case True
    then obtain d where d: "map_of tm t = Some d" by auto
    let ?st = "st \<lparr> s_nodes := s_nodes st @ [(t, nd tm t)],
                    visited := insert t (visited st), queue := queue st @ [t] \<rparr>"
    have s: "discover tm t st = ?st"
      using True d Cons.prems by (simp add: discover_def nd_def update_fresh_key)
    have "visited ?st = fst ` set (s_nodes ?st)" using Cons.prems by simp
    from Cons.IH [OF this] True s show ?thesis by simp
  qed
qed


section \<open>The loop invariant\<close>

lemma edge_rel_append: "edge_rel (es @ fs) = edge_rel es \<union> edge_rel fs"
  by (auto simp: edge_rel_def)

lemma edge_rel_Nil [simp]: "edge_rel [] = {}"
  by (simp add: edge_rel_def)

lemma edge_rel_map: "edge_rel (map f xs) = (\<lambda>x. (source (f x), target (f x))) ` set xs"
  by (simp add: edge_rel_def image_image)

lemma edge_rel_node_edges: "edge_rel (node_edges cur n) = {cur} \<times> set (node_targets n)"
  by (cases "node_fields n"; cases "interfaces n"; cases "possibleTypes n")
     (auto simp: node_edges_def node_targets_def edge_rel_append edge_rel_map)

lemma map_of_keyed: "map_of (map (\<lambda>k. (k, f k)) ks) k = (if k \<in> set ks then Some (f k) else None)"
  by (induction ks) auto

lemma keys_keyed: "map fst (map (\<lambda>k. (k, f k)) ks) = ks"
  by (induction ks) simp_all

lemma keyset_keyed: "fst ` set (map (\<lambda>k. (k, f k)) ks) = set ks"
  using keys_keyed [of f ks] by (metis set_map)

lemma Inv_step:
  assumes inv: "Inv tm root dn st" and q: "queue st = cur # rest"
  defines "st' \<equiv> expand tm cur (nd tm cur) (st \<lparr> queue := rest \<rparr>)"
  shows "bfs_body tm cur rest st = Inr st'"
    and "Inv tm root (dn @ [cur]) st'"
    and "queue st' = rest @ fresh tm (visited st) (node_targets (nd tm cur))"
    and "visited st' = visited st \<union> set (fresh tm (visited st) (node_targets (nd tm cur)))"
proof -
  let ?F = "fresh tm (visited st) (node_targets (nd tm cur))"
  let ?s1 = "st \<lparr> queue := rest \<rparr>"
  from inv have I: "s_nodes st = map (\<lambda>k. (k, nd tm k)) (dn @ cur # rest) \<and>
     visited st = set (dn @ cur # rest) \<and>
     distinct (dn @ cur # rest) \<and>
     (\<forall>k\<in>set (dn @ cur # rest). map_of tm k \<noteq> None) \<and>
     s_edges st = concat (map (\<lambda>k. node_edges k (nd tm k)) dn) \<and>
     (\<forall>k\<in>set dn. \<forall>t\<in>set (node_targets (nd tm k)).
         map_of tm t \<noteq> None \<longrightarrow> t \<in> set (dn @ cur # rest)) \<and>
     (\<forall>k\<in>set (dn @ cur # rest). (root, k) \<in> (edge_rel (s_edges st))\<^sup>*)"
    unfolding Inv_def q .
  note nodes = I [THEN conjunct1]
    and vis = I [THEN conjunct2, THEN conjunct1]
    and dist = I [THEN conjunct2, THEN conjunct2, THEN conjunct1]
    and rec = I [THEN conjunct2, THEN conjunct2, THEN conjunct2, THEN conjunct1]
    and edg = I [THEN conjunct2, THEN conjunct2, THEN conjunct2, THEN conjunct2, THEN conjunct1]
    and clo = I [THEN conjunct2, THEN conjunct2, THEN conjunct2, THEN conjunct2, THEN conjunct2,
                 THEN conjunct1]
    and rch = I [THEN conjunct2, THEN conjunct2, THEN conjunct2, THEN conjunct2, THEN conjunct2,
                 THEN conjunct2]
  have look: "map_of (s_nodes st) cur = Some (nd tm cur)"
    by (simp only: nodes map_of_keyed) simp
  show "bfs_body tm cur rest st = Inr st'"
    by (simp add: bfs_body_def look st'_def)
  have k1: "visited ?s1 = fst ` set (s_nodes ?s1)"
    using vis by (simp add: nodes keyset_keyed del: set_map map_append set_append)
  have st': "st' = st \<lparr> s_nodes := s_nodes st @ map (\<lambda>k. (k, nd tm k)) ?F,
                        s_edges := s_edges st @ node_edges cur (nd tm cur),
                        visited := visited st \<union> set ?F,
                        queue := rest @ ?F \<rparr>"
    unfolding st'_def expand_eq discover_all_fresh [OF k1]
    by (simp add: push_edges_def)
  show qq: "queue st' = rest @ ?F" by (simp add: st')
  show vv: "visited st' = visited st \<union> set ?F" by (simp add: st')
  have Fset: "set ?F = {t \<in> set (node_targets (nd tm cur)). t \<notin> visited st \<and> map_of tm t \<noteq> None}"
    by (rule fresh_set)
  have Fvis: "\<forall>t\<in>set ?F. t \<notin> set dn \<and> t \<noteq> cur \<and> t \<notin> set rest \<and> map_of tm t \<noteq> None"
    unfolding Fset using vis by auto
  have Fall: "\<forall>t\<in>set (node_targets (nd tm cur)). map_of tm t \<noteq> None \<longrightarrow>
      t \<in> set dn \<or> t = cur \<or> t \<in> set rest \<or> t \<in> set ?F"
    unfolding Fset using vis by auto
  have e': "s_edges st' = s_edges st @ node_edges cur (nd tm cur)" by (simp add: st')
  have mono: "(edge_rel (s_edges st))\<^sup>* \<subseteq> (edge_rel (s_edges st'))\<^sup>*"
    by (rule rtrancl_mono) (simp add: e' edge_rel_append)
  have rcur: "(root, cur) \<in> (edge_rel (s_edges st'))\<^sup>*"
    using rch mono by auto
  have rF: "(root, t) \<in> (edge_rel (s_edges st'))\<^sup>*" if "t \<in> set ?F" for t
  proof -
    from that have "t \<in> set (node_targets (nd tm cur))" by (simp add: Fset)
    then have "(cur, t) \<in> edge_rel (s_edges st')"
      by (simp add: e' edge_rel_append edge_rel_node_edges)
    with rcur show ?thesis by (rule rtrancl_into_rtrancl)
  qed
  show "Inv tm root (dn @ [cur]) st'"
    unfolding Inv_def
  proof (intro conjI)
    show "s_nodes st' = map (\<lambda>k. (k, nd tm k)) ((dn @ [cur]) @ queue st')"
      by (simp add: st' nodes)
    show "visited st' = set ((dn @ [cur]) @ queue st')"
      by (auto simp: st' vis)
    show "distinct ((dn @ [cur]) @ queue st')"
      using dist fresh_distinct [of tm "visited st" "node_targets (nd tm cur)"] Fvis
      by (auto simp: qq)
    show "\<forall>k\<in>set ((dn @ [cur]) @ queue st'). map_of tm k \<noteq> None"
      using rec Fvis by (auto simp: qq)
    show "s_edges st' = concat (map (\<lambda>k. node_edges k (nd tm k)) (dn @ [cur]))"
      by (simp add: e' edg)
    show "\<forall>k\<in>set (dn @ [cur]). \<forall>t\<in>set (node_targets (nd tm k)).
         map_of tm t \<noteq> None \<longrightarrow> t \<in> set ((dn @ [cur]) @ queue st')"
      using clo Fall by (auto simp: qq)
    show "\<forall>k\<in>set ((dn @ [cur]) @ queue st'). (root, k) \<in> (edge_rel (s_edges st'))\<^sup>*"
      using rch mono rF by (auto simp: qq)
  qed
qed

lemma bfs_Inv:
  "Inv tm root dn st \<Longrightarrow>
     \<exists>st' ds. bfs tm st = Some (Inr st') \<and> dequeued tm st = Some ds \<and>
        (\<exists>more. ds = queue st @ more) \<and> Inv tm root (dn @ ds) st' \<and> queue st' = []"
proof (induction "card (fst ` set tm - visited st) + length (queue st)" arbitrary: st dn rule: less_induct)
  case less
  show ?case
  proof (cases "queue st")
    case Nil
    with less.prems show ?thesis
      by (subst bfs.simps, subst dequeued.simps) simp
  next
    case (Cons cur rest)
    let ?st' = "expand tm cur (nd tm cur) (st \<lparr> queue := rest \<rparr>)"
    let ?F = "fresh tm (visited st) (node_targets (nd tm cur))"
    note step = Inv_step [OF less.prems Cons]
    have Fset: "set ?F = {t \<in> set (node_targets (nd tm cur)). t \<notin> visited st \<and> map_of tm t \<noteq> None}"
      by (rule fresh_set)
    have sub: "set ?F \<subseteq> fst ` set tm - visited st"
      by (auto simp: Fset map_of_eq_None_iff)
    have "fst ` set tm - visited ?st' = (fst ` set tm - visited st) - set ?F"
      by (auto simp: step(4))
    then have "card (fst ` set tm - visited ?st') = card (fst ` set tm - visited st) - card (set ?F)"
      using sub by (simp add: card_Diff_subset)
    moreover have "card (set ?F) \<le> card (fst ` set tm - visited st)"
      using sub by (intro card_mono) auto
    moreover have "card (set ?F) = length ?F"
      by (simp add: distinct_card fresh_distinct)
    ultimately have dec: "card (fst ` set tm - visited ?st') + length (queue ?st')
        < card (fst ` set tm - visited st) + length (queue st)"
      by (simp add: step(3) Cons)
    from less.hyps [OF dec step(2)] obtain st'' ds where
      r: "bfs tm ?st' = Some (Inr st'')" "dequeued tm ?st' = Some ds"
         "\<exists>more. ds = queue ?st' @ more"
         "Inv tm root ((dn @ [cur]) @ ds) st''" "queue st'' = []"
      by blast
    have b: "bfs tm st = Some (Inr st'')"
      by (subst bfs.simps) (simp add: Cons step(1) r(1))
    have d: "dequeued tm st = Some (cur # ds)"
      by (subst dequeued.simps) (simp add: Cons step(1) r(2))
    have "\<exists>more. cur # ds = queue st @ more"
      using r(3) by (auto simp: Cons step(3))
    with b d r(4,5) show ?thesis by simp
  qed
qed

section \<open>The extractor as a whole\<close>

lemma parse_query_nonempty:
  "parseIntrospection doc = Inr p \<Longrightarrow> queryTypeName p = Some q \<Longrightarrow> q \<noteq> []"
  by (auto simp: parseIntrospection_def split: option.splits if_splits)

lemma initial_Inv:
  assumes "map_of tm q = Some d" and "type_name d = q"
  shows "Inv tm q [] (initial_state (createTypeNode d))"
proof -
  have n: "name (createTypeNode d) = q" using assms(2) by (simp add: createTypeNode_def)
  have "nd tm q = createTypeNode d" using assms(1) by (simp add: nd_def)
  then show ?thesis
    using assms(1) by (simp add: Inv_def initial_state_def n)
qed

lemma extractGraph_run:
  assumes p: "parseIntrospection doc = Inr p" and q: "queryTypeName p = Some q"
    and d: "map_of (buildTypeMap (parsed_types p)) q = Some d"
  shows "\<exists>ks st. extractGraph doc
            = Some (Inr \<lparr> nodes = s_nodes st, edges = s_edges st, rootType = createTypeNode d \<rparr>)
          \<and> Inv (buildTypeMap (parsed_types p)) q ks st \<and> queue st = [] \<and> q \<in> set ks
          \<and> dequeued (buildTypeMap (parsed_types p)) (initial_state (createTypeNode d)) = Some ks"
proof -
  let ?tm = "buildTypeMap (parsed_types p)"
  let ?st0 = "initial_state (createTypeNode d)"
  have tn: "type_name d = q" using buildTypeMap_Some [OF d] by simp
  have q0: "queue ?st0 = [q]"
    by (simp add: initial_state_def createTypeNode_def tn)
  from initial_Inv [OF d tn] have "Inv ?tm q [] ?st0" .
  from bfs_Inv [OF this] obtain st ks where
    r: "bfs ?tm ?st0 = Some (Inr st)" "dequeued ?tm ?st0 = Some ks"
       "\<exists>more. ks = queue ?st0 @ more"
       "Inv ?tm q ([] @ ks) st" "queue st = []"
    by blast
  from r(3) have qk: "q \<in> set ks" by (auto simp: q0)
  have "extractGraph doc
      = Some (Inr \<lparr> nodes = s_nodes st, edges = s_edges st, rootType = createTypeNode d \<rparr>)"
    using parse_query_nonempty [OF p q]
    by (simp add: extractGraph_def p q d r(1) Let_def)
  with r(1,2,4,5) qk show ?thesis by auto
qed

lemma extractGraph_success:
  assumes "extractGraph doc = Some (Inr g)"
  shows "\<exists>p q d ks st. parseIntrospection doc = Inr p \<and> queryTypeName p = Some q
           \<and> map_of (buildTypeMap (parsed_types p)) q = Some d
           \<and> g = \<lparr> nodes = s_nodes st, edges = s_edges st, rootType = createTypeNode d \<rparr>
           \<and> Inv (buildTypeMap (parsed_types p)) q ks st \<and> queue st = [] \<and> q \<in> set ks
           \<and> dequeued (buildTypeMap (parsed_types p)) (initial_state (createTypeNode d)) = Some ks"
proof (cases "parseIntrospection doc")
  case (Inl e)
  with assms show ?thesis by (simp add: extractGraph_def)
next
  case (Inr p)
  show ?thesis
  proof (cases "queryTypeName p")
    case None
    with Inr assms show ?thesis by (simp add: extractGraph_def)
  next
    case (Some q)
    show ?thesis
    proof (cases "map_of (buildTypeMap (parsed_types p)) q")
      case None
      with Inr Some assms show ?thesis
        by (simp add: extractGraph_def Let_def split: if_splits)
    next
      case (Some d)
      from extractGraph_run [OF Inr \<open>queryTypeName p = Some q\<close> Some] assms Inr \<open>queryTypeName p = Some q\<close> Some
      show ?thesis by auto
    qed
  qed
qed

text \<open>What a returned graph looks like.\<close>

lemma extractGraph_facts:
  assumes "extractGraph doc = Some (Inr g)"
  obtains p q d ks where
    "parseIntrospection doc = Inr p" and "queryTypeName p = Some q"
    and "map_of (buildTypeMap (parsed_types p)) q = Some d" and "type_name d = q"
    and "rootType g = createTypeNode d"
    and "nodes g = map (\<lambda>k. (k, nd (buildTypeMap (parsed_types p)) k)) ks"
    and "edges g = concat (map (\<lambda>k. node_edges k (nd (buildTypeMap (parsed_types p)) k)) ks)"
    and "distinct ks" and "q \<in> set ks"
    and "\<forall>k\<in>set ks. map_of (buildTypeMap (parsed_types p)) k \<noteq> None"
    and "\<forall>k\<in>set ks. \<forall>t\<in>set (node_targets (nd (buildTypeMap (parsed_types p)) k)).
           map_of (buildTypeMap (parsed_types p)) t \<noteq> None \<longrightarrow> t \<in> set ks"
    and "\<forall>k\<in>set ks. (q, k) \<in> (edge_rel (edges g))\<^sup>*"
    and "dequeued (buildTypeMap (parsed_types p)) (initial_state (createTypeNode d)) = Some ks"
proof -
  from extractGraph_success [OF assms] obtain p q d ks st where
    s: "parseIntrospection doc = Inr p" "queryTypeName p = Some q"
       "map_of (buildTypeMap (parsed_types p)) q = Some d"
       "g = \<lparr> nodes = s_nodes st, edges = s_edges st, rootType = createTypeNode d \<rparr>"
       "Inv (buildTypeMap (parsed_types p)) q ks st" "queue st = []" "q \<in> set ks"
       "dequeued (buildTypeMap (parsed_types p)) (initial_state (createTypeNode d)) = Some ks"
    by blast
  let ?tm = "buildTypeMap (parsed_types p)"
  have tn: "type_name d = q" using buildTypeMap_Some [OF s(3)] by simp
  have I: "s_nodes st = map (\<lambda>k. (k, nd ?tm k)) ks \<and>
     visited st = set ks \<and>
     distinct ks \<and>
     (\<forall>k\<in>set ks. map_of ?tm k \<noteq> None) \<and>
     s_edges st = concat (map (\<lambda>k. node_edges k (nd ?tm k)) ks) \<and>
     (\<forall>k\<in>set ks. \<forall>t\<in>set (node_targets (nd ?tm k)).
         map_of ?tm t \<noteq> None \<longrightarrow> t \<in> set ks) \<and>
     (\<forall>k\<in>set ks. (q, k) \<in> (edge_rel (s_edges st))\<^sup>*)"
    using s(5) unfolding Inv_def s(6) append_Nil2 .
  have g: "nodes g = s_nodes st" "edges g = s_edges st" "rootType g = createTypeNode d"
    by (simp_all add: s(4))
  note n = I [THEN conjunct1, folded g]
    and di = I [THEN conjunct2, THEN conjunct2, THEN conjunct1]
    and rc = I [THEN conjunct2, THEN conjunct2, THEN conjunct2, THEN conjunct1]
    and e = I [THEN conjunct2, THEN conjunct2, THEN conjunct2, THEN conjunct2, THEN conjunct1,
               folded g]
    and cl = I [THEN conjunct2, THEN conjunct2, THEN conjunct2, THEN conjunct2, THEN conjunct2,
                THEN conjunct1]
    and re = I [THEN conjunct2, THEN conjunct2, THEN conjunct2, THEN conjunct2, THEN conjunct2,
                THEN conjunct2, folded g]
  show ?thesis
    by (rule that [OF s(1,2,3) tn g(3) n e di s(7) rc cl re s(8)])
qed

section \<open>Claims about the type reference resolver\<close>

lemma unwrapType_wrap:
  "set ks \<subseteq> {LIST, NON_NULL} \<Longrightarrow> unwrapType (Some (wrap ks leaf)) = unwrapType (Some leaf)"
  by (induction ks) auto

text \<open>
  Claim C8. For every number of LIST/NON_NULL wrapper layers \<open>ks\<close> around a leaf (a
  reference whose kind is neither LIST nor NON_NULL), \<open>unwrapType\<close> returns the leaf's
  name, whatever the number of layers; a null reference yields null; and a wrapper whose
  wrapped reference is absent yields null, with no error.
\<close>

theorem unwrapType_chain:
  "(set ks \<subseteq> {LIST, NON_NULL} \<longrightarrow> lk \<noteq> LIST \<longrightarrow> lk \<noteq> NON_NULL \<longrightarrow>
      unwrapType (Some (wrap ks (IntrospectionTypeRef lk ln lw))) = ln)
   \<and> unwrapType None = None
   \<and> (k = LIST \<or> k = NON_NULL \<longrightarrow> unwrapType (Some (IntrospectionTypeRef k nm None)) = None)"
  by (auto simp: unwrapType_wrap)

theorem unwrapType_chain_witness:
  "unwrapType (Some (wrap [NON_NULL, LIST, NON_NULL] (IntrospectionTypeRef OBJECT (Some ''CableType'') None)))
     = Some ''CableType''
   \<and> unwrapType (Some (IntrospectionTypeRef NON_NULL None (Some (IntrospectionTypeRef LIST None
        (Some (IntrospectionTypeRef NON_NULL None (Some (IntrospectionTypeRef OBJECT (Some ''CableType'') None))))))))
     = Some ''CableType''
   \<and> unwrapType (Some (IntrospectionTypeRef LIST None None)) = None"
  using unwrapType_chain [of "[NON_NULL, LIST, NON_NULL]" OBJECT "Some ''CableType''" None LIST None]
  by simp

section \<open>Runs on the concrete schemas\<close>

lemma cyclic_run: "extractGraph cyclic_doc = Some (Inr cyclic_graph)"
  by code_simp

lemma cyclic_parse: "parseIntrospection cyclic_doc = Inr cyclic_parsed"
  by code_simp

lemma extractGraph_returns: "\<exists>r. extractGraph doc = Some r"
proof (cases "parseIntrospection doc")
  case (Inl e)
  then show ?thesis by (simp add: extractGraph_def)
next
  case (Inr p)
  show ?thesis
  proof (cases "queryTypeName p")
    case None
    with Inr show ?thesis by (simp add: extractGraph_def)
  next
    case (Some q)
    show ?thesis
    proof (cases "map_of (buildTypeMap (parsed_types p)) q")
      case None
      with Inr Some show ?thesis by (simp add: extractGraph_def Let_def)
    next
      case (Some d)
      from extractGraph_run [OF Inr \<open>queryTypeName p = Some q\<close> Some]
      show ?thesis by blast
    qed
  qed
qed

lemma root_name:
  assumes "rootType g = createTypeNode d" and "type_name d = q"
  shows "name (rootType g) = q"
  using assms by (simp add: createTypeNode_def)

section \<open>Claims about the extractor\<close>

lemma set_map_filter_Some:
  "set (List.map_filter f xs) = {y. \<exists>x\<in>set xs. f x = Some y}"
  by (induction xs) (auto split: option.splits)

lemma map_the_filter:
  "map the (filter (\<lambda>n. n \<noteq> None) (map f xs)) = List.map_filter f xs"
  by (induction xs) (auto split: option.splits)

lemma unwrapNames_Some:
  "unwrapNames (Some rs) = Some (List.map_filter (\<lambda>r. unwrapType (Some r)) rs)"
  unfolding unwrapNames_def by (simp only: option.case map_the_filter)

lemma interface_refs_targets:
  "set (interface_refs d) \<subseteq> set (node_targets (createTypeNode d))"
proof (cases "type_interfaces d")
  case None
  then show ?thesis by (simp add: interface_refs_def)
next
  case (Some rs)
  then have i: "interfaces (createTypeNode d) = Some (interface_refs d)"
    by (simp add: createTypeNode_def unwrapNames_Some interface_refs_def)
  show ?thesis by (auto simp: node_targets_def i)
qed

lemma member_refs_targets:
  "set (member_refs d) \<subseteq> set (node_targets (createTypeNode d))"
proof (cases "type_possibleTypes d")
  case None
  then show ?thesis by (simp add: member_refs_def)
next
  case (Some rs)
  then have m: "possibleTypes (createTypeNode d) = Some (member_refs d)"
    by (simp add: createTypeNode_def unwrapNames_Some member_refs_def)
  show ?thesis by (auto simp: node_targets_def m)
qed

lemma field_refs_targets:
  assumes "b \<in> set (field_refs d)" and "b \<noteq> []"
  shows "b \<in> set (node_targets (createTypeNode d))"
proof -
  from assms(1) obtain fs where fs: "type_fields d = Some fs"
    by (cases "type_fields d") (simp_all add: field_refs_def)
  with assms(1) have "b \<in> set (List.map_filter (\<lambda>f. unwrapType (Some (field_type f))) fs)"
    by (simp add: field_refs_def)
  then obtain f where f: "f \<in> set fs"
    and u: "unwrapType (Some (field_type f)) = Some b"
    unfolding set_map_filter_Some by blast
  from f have ne: "fs \<noteq> []" by auto
  let ?g = "\<lambda>field. \<lparr> info_name = field_name field,
                      typeName = or_default (unwrapType (Some (field_type field))) ''Unknown'',
                      info_description = field_description field \<rparr>"
  have nf: "node_fields (createTypeNode d) = Some (map ?g fs)"
    using fs ne by (simp add: createTypeNode_def extractFields_def)
  have "typeName (?g f) = b" using u assms(2) by (simp add: or_default_def)
  with f have "b \<in> (\<lambda>x. typeName (?g x)) ` set fs" by (rule rev_image_eqI [OF _ sym])
  then show ?thesis by (auto simp: node_targets_def nf image_image)
qed

lemma named_references_targets:
  assumes "(a, b) \<in> named_references tm"
  shows "\<exists>d. map_of tm a = Some d \<and> b \<in> set (node_targets (createTypeNode d))
             \<and> map_of tm b \<noteq> None"
proof -
  from assms obtain d where
    d: "map_of tm a = Some d" "map_of tm b \<noteq> None"
    and b: "b \<in> (set (field_refs d) - {[]}) \<union> set (interface_refs d) \<union> set (member_refs d)"
    unfolding named_references_def by blast
  from b field_refs_targets [of b d] interface_refs_targets [of d] member_refs_targets [of d]
  have "b \<in> set (node_targets (createTypeNode d))" by blast
  with d show ?thesis by blast
qed

lemma blank_run: "extractGraph blank_doc = Some (Inr blank_graph)"
  by code_simp

lemma blank_parse: "parseIntrospection blank_doc = Inr blank_parsed"
  by code_simp

text \<open>
  Claim C1, as the code has it. When extraction succeeds, every key of the node mapping is
  reachable from the root's name along the edges of the graph. Conversely, every name
  reachable from the root's name along the references of the raw records between names
  with a record in the lookup table (field references that resolve to a non-empty name,
  implemented interfaces, union members) is a key of the node mapping. A field reference
  that resolves to the empty name is not followed: its entry names "Unknown" instead.
\<close>

theorem reachability_closure:
  assumes "extractGraph doc = Some (Inr g)" and "parseIntrospection doc = Inr p"
  shows "fst ` set (nodes g) \<subseteq> (edge_rel (edges g))\<^sup>* `` {name (rootType g)}
       \<and> (named_references (buildTypeMap (parsed_types p)))\<^sup>* `` {name (rootType g)}
           \<subseteq> fst ` set (nodes g)"
proof -
  from assms(1) obtain p' q d ks where
    f: "parseIntrospection doc = Inr p'" "type_name d = q" "rootType g = createTypeNode d"
       "nodes g = map (\<lambda>k. (k, nd (buildTypeMap (parsed_types p')) k)) ks"
       "q \<in> set ks"
       "\<forall>k\<in>set ks. \<forall>t\<in>set (node_targets (nd (buildTypeMap (parsed_types p')) k)).
           map_of (buildTypeMap (parsed_types p')) t \<noteq> None \<longrightarrow> t \<in> set ks"
       "\<forall>k\<in>set ks. (q, k) \<in> (edge_rel (edges g))\<^sup>*"
    by (rule extractGraph_facts)
  from f(1) assms(2) have pp: "p' = p" by simp
  let ?tm = "buildTypeMap (parsed_types p)"
  have root: "name (rootType g) = q" by (rule root_name [OF f(3) f(2)])
  have keys: "fst ` set (nodes g) = set ks" by (simp only: f(4) keyset_keyed)
  have A: "set ks \<subseteq> (edge_rel (edges g))\<^sup>* `` {q}"
    using f(7) by blast
  have B: "t \<in> set ks" if "(q, t) \<in> (named_references ?tm)\<^sup>*" for t
    using that
  proof (induction rule: rtrancl_induct)
    case base
    show ?case by (rule f(5))
  next
    case (step a b)
    from named_references_targets [OF step.hyps(2)] obtain d' where
      d': "map_of ?tm a = Some d'" "b \<in> set (node_targets (createTypeNode d'))"
          "map_of ?tm b \<noteq> None"
      by blast
    from d'(1,2) have "b \<in> set (node_targets (nd ?tm a))" by (simp add: nd_def)
    with f(6) [unfolded pp] step.IH d'(3) show ?case by blast
  qed
  from A B show ?thesis unfolding keys root by blast
qed

theorem reachability_closure_witness:
  "extractGraph cyclic_doc = Some (Inr cyclic_graph)
   \<and> fst ` set (nodes cyclic_graph) \<subseteq> (edge_rel (edges cyclic_graph))\<^sup>* `` {name (rootType cyclic_graph)}
   \<and> (named_references (buildTypeMap (parsed_types cyclic_parsed)))\<^sup>* `` {name (rootType cyclic_graph)}
        \<subseteq> fst ` set (nodes cyclic_graph)"
  using reachability_closure [OF cyclic_run cyclic_parse] cyclic_run by simp

theorem reachability_closure_counterexample:
  "extractGraph blank_doc = Some (Inr blank_graph)
   \<and> parseIntrospection blank_doc = Inr blank_parsed
   \<and> map_of (buildTypeMap (parsed_types blank_parsed)) [] = Some Blank_type
   \<and> [] \<in> (raw_references (buildTypeMap (parsed_types blank_parsed)))\<^sup>* `` {name (rootType blank_graph)}
   \<and> [] \<notin> fst ` set (nodes blank_graph)"
proof -
  let ?tm = "buildTypeMap (parsed_types blank_parsed)"
  have q: "map_of ?tm ''Query'' = Some (object ''Query'' [empty_ref_field])"
    by code_simp
  have b: "map_of ?tm [] = Some Blank_type"
    by code_simp
  have r: "[] \<in> set (field_refs (object ''Query'' [empty_ref_field]))"
    by (simp add: field_refs_def empty_ref_field_def)
  from q b r have "(''Query'', []) \<in> raw_references ?tm"
    unfolding raw_references_def by blast
  then have "(''Query'', []) \<in> (raw_references ?tm)\<^sup>*" by (rule r_into_rtrancl)
  moreover have "name (rootType blank_graph) = ''Query''" by (simp add: blank_graph_def)
  ultimately have 1: "[] \<in> (raw_references ?tm)\<^sup>* `` {name (rootType blank_graph)}"
    by simp
  have 2: "[] \<notin> fst ` set (nodes blank_graph)" by (simp add: blank_graph_def)
  from blank_run blank_parse b 1 2 show ?thesis by blast
qed

text \<open>
  Claim C2. For every introspection document the extraction returns (the loop ends, also on
  a cyclic schema). A target that is already visited is left alone by the discovery step,
  and the step enqueues a name only together with marking it visited. In a returned graph
  the names the loop dequeued, in order, are exactly the keys of the node mapping, and no
  name occurs twice among them.
\<close>

theorem extraction_terminates:
  "(\<exists>r. extractGraph doc = Some r)
   \<and> (t \<in> visited st \<longrightarrow> discover tm t st = st)
   \<and> (queue (discover tm t st) = queue st
        \<or> (t \<notin> visited st \<and> t \<in> visited (discover tm t st)
            \<and> queue (discover tm t st) = queue st @ [t]))
   \<and> (extractGraph doc = Some (Inr g) \<longrightarrow> parseIntrospection doc = Inr p \<longrightarrow>
        distinct (map fst (nodes g))
        \<and> dequeued (buildTypeMap (parsed_types p)) (initial_state (rootType g))
            = Some (map fst (nodes g)))"
proof (intro conjI impI)
  show "\<exists>r. extractGraph doc = Some r" by (rule extractGraph_returns)
  show "discover tm t st = st" if "t \<in> visited st"
    using that by (simp add: discover_def)
  show "queue (discover tm t st) = queue st
        \<or> (t \<notin> visited st \<and> t \<in> visited (discover tm t st)
            \<and> queue (discover tm t st) = queue st @ [t])"
    by (simp add: discover_def split: option.splits)
next
  assume a: "extractGraph doc = Some (Inr g)" "parseIntrospection doc = Inr p"
  from a(1) obtain p' q d ks where
    f: "parseIntrospection doc = Inr p'" "rootType g = createTypeNode d"
       "nodes g = map (\<lambda>k. (k, nd (buildTypeMap (parsed_types p')) k)) ks"
       "distinct ks"
       "dequeued (buildTypeMap (parsed_types p')) (initial_state (createTypeNode d)) = Some ks"
    by (rule extractGraph_facts)
  from f(1) a(2) have pp: "p' = p" by simp
  have keys: "map fst (nodes g) = ks" by (simp only: f(3) keys_keyed)
  show "distinct (map fst (nodes g))" unfolding keys by (rule f(4))
  show "dequeued (buildTypeMap (parsed_types p)) (initial_state (rootType g))
            = Some (map fst (nodes g))"
    unfolding keys f(2) using f(5) pp by simp
qed

theorem extraction_terminates_witness:
  "extractGraph cyclic_doc = Some (Inr cyclic_graph)
   \<and> distinct (map fst (nodes cyclic_graph))
   \<and> dequeued (buildTypeMap (parsed_types cyclic_parsed)) (initial_state (rootType cyclic_graph))
        = Some (map fst (nodes cyclic_graph))
   \<and> map fst (nodes cyclic_graph) = [''Query'', ''Item'', ''Node'']"
proof -
  have k: "map fst (nodes cyclic_graph) = [''Query'', ''Item'', ''Node'']"
    by (simp add: cyclic_graph_def)
  from extraction_terminates [of cyclic_doc _ _ _ cyclic_graph cyclic_parsed]
    cyclic_run cyclic_parse
  have "distinct (map fst (nodes cyclic_graph))
     \<and> dequeued (buildTypeMap (parsed_types cyclic_parsed)) (initial_state (rootType cyclic_graph))
        = Some (map fst (nodes cyclic_graph))"
    by blast
  with cyclic_run k show ?thesis by simp
qed

lemma length_node_edges: "length (node_edges k n) = length (node_targets n)"
  by (simp add: node_edges_def node_targets_def split: option.splits)

lemma concat_keyed:
  "concat (map (\<lambda>(k, n). f k n) (map (\<lambda>k. (k, h k)) ks)) = concat (map (\<lambda>k. f k (h k)) ks)"
  by (induction ks) simp_all

lemma sum_keyed:
  "sum_list (map (\<lambda>(k, n). f k n) (map (\<lambda>k. (k, h k)) ks)) = sum_list (map (\<lambda>k. (f k (h k) :: nat)) ks)"
  by (induction ks) simp_all

lemma length_concat_groups:
  "length (concat (map (\<lambda>k. node_edges k (h k)) ks)) = sum_list (map (\<lambda>k. length (node_targets (h k))) ks)"
  by (induction ks) (simp_all add: length_node_edges)

lemma source_node_edges: "e \<in> set (node_edges k n) \<Longrightarrow> source e = k"
  by (auto simp: node_edges_def split: option.splits)

lemma filter_source_other:
  "k' \<noteq> k \<Longrightarrow> filter (\<lambda>e. source e = k \<and> P e) (node_edges k' n) = []"
  by (auto simp: filter_empty_conv dest: source_node_edges)

lemma filter_source_groups_notin:
  "k \<notin> set ks \<Longrightarrow> filter (\<lambda>e. source e = k \<and> P e) (concat (map (\<lambda>k. node_edges k (h k)) ks)) = []"
  by (induction ks) (auto simp: filter_source_other)

lemma filter_source_groups:
  "distinct ks \<Longrightarrow> k \<in> set ks \<Longrightarrow>
     filter (\<lambda>e. source e = k \<and> P e) (concat (map (\<lambda>k. node_edges k (h k)) ks))
       = filter (\<lambda>e. source e = k \<and> P e) (node_edges k (h k))"
proof (induction ks)
  case Nil
  then show ?case by simp
next
  case (Cons a ks)
  show ?case
  proof (cases "a = k")
    case True
    with Cons.prems have "k \<notin> set ks" by simp
    with True show ?thesis by (simp add: filter_source_groups_notin)
  next
    case False
    with Cons.prems have "distinct ks" "k \<in> set ks" by auto
    from Cons.IH [OF this] False show ?thesis by (simp add: filter_source_other)
  qed
qed

lemma field_edges_of_node:
  "node_fields n = Some fs \<Longrightarrow>
     filter (\<lambda>e. source e = k \<and> edgeType e = FIELD) (node_edges k n)
       = map (\<lambda>f. \<lparr> source = k, target = typeName f, edgeType = FIELD,
                       fieldName = Some (info_name f) \<rparr>) fs"
  by (simp add: node_edges_def filter_map comp_def split: option.splits)

text \<open>
  Claim C3. In a returned graph the edge sequence is the concatenation, over the nodes in
  the order the loop dequeued them (which is the order of the node mapping), of each
  node's edge group: its FIELD edges in field-declaration order, then its IMPLEMENTS
  edges, then its UNION_MEMBER edges. Nothing is deduplicated: there is one edge per
  field, interface and union member, and the FIELD edges of a source are, in order, one
  per field of its node, each with that field's target and name.
\<close>

theorem edge_order:
  assumes "extractGraph doc = Some (Inr g)" and "parseIntrospection doc = Inr p"
  shows "edges g = concat (map (\<lambda>(k, n). node_edges k n) (nodes g))
       \<and> dequeued (buildTypeMap (parsed_types p)) (initial_state (rootType g))
            = Some (map fst (nodes g))
       \<and> length (edges g) = sum_list (map (\<lambda>(k, n). length (node_targets n)) (nodes g))
       \<and> (\<forall>k n fs. (k, n) \<in> set (nodes g) \<longrightarrow> node_fields n = Some fs \<longrightarrow>
             filter (\<lambda>e. source e = k \<and> edgeType e = FIELD) (edges g)
               = map (\<lambda>f. \<lparr> source = k, target = typeName f, edgeType = FIELD,
                               fieldName = Some (info_name f) \<rparr>) fs)"
proof -
  from assms(1) obtain p' q d ks where
    f: "parseIntrospection doc = Inr p'" "rootType g = createTypeNode d"
       "nodes g = map (\<lambda>k. (k, nd (buildTypeMap (parsed_types p')) k)) ks"
       "edges g = concat (map (\<lambda>k. node_edges k (nd (buildTypeMap (parsed_types p')) k)) ks)"
       "distinct ks"
       "dequeued (buildTypeMap (parsed_types p')) (initial_state (createTypeNode d)) = Some ks"
    by (rule extractGraph_facts)
  from f(1) assms(2) have pp: "p' = p" by simp
  let ?h = "nd (buildTypeMap (parsed_types p))"
  note n = f(3) [unfolded pp] and e = f(4) [unfolded pp]
  have keys: "map fst (nodes g) = ks" by (simp only: n keys_keyed)
  have 1: "edges g = concat (map (\<lambda>(k, n). node_edges k n) (nodes g))"
    unfolding e n by (simp only: concat_keyed)
  have 2: "dequeued (buildTypeMap (parsed_types p)) (initial_state (rootType g))
            = Some (map fst (nodes g))"
    unfolding keys f(2) using f(6) pp by simp
  have 3: "length (edges g) = sum_list (map (\<lambda>(k, n). length (node_targets n)) (nodes g))"
    unfolding e n by (simp only: sum_keyed length_concat_groups)
  have 4: "filter (\<lambda>e. source e = k \<and> edgeType e = FIELD) (edges g)
               = map (\<lambda>f. \<lparr> source = k, target = typeName f, edgeType = FIELD,
                               fieldName = Some (info_name f) \<rparr>) fs"
    if "(k, n) \<in> set (nodes g)" and "node_fields n = Some fs" for k n fs
  proof -
    from that(1) have kn: "k \<in> set ks" "n = ?h k" unfolding n by auto
    show ?thesis
      unfolding e filter_source_groups [OF f(5) kn(1)]
      using that(2) kn(2) by (simp only: field_edges_of_node)
  qed
  from 1 2 3 4 show ?thesis by blast
qed

theorem edge_order_witness:
  "extractGraph cyclic_doc = Some (Inr cyclic_graph)
   \<and> edges cyclic_graph = concat (map (\<lambda>(k, n). node_edges k n) (nodes cyclic_graph))
   \<and> filter (\<lambda>e. source e = ''Query'' \<and> edgeType e = FIELD) (edges cyclic_graph)
        = [field_edge ''Query'' ''Item'' ''a'', field_edge ''Query'' ''Item'' ''b'',
           field_edge ''Query'' ''Ghost'' ''ghost'']
   \<and> map edgeType (edges cyclic_graph)
        = [FIELD, FIELD, FIELD, FIELD, IMPLEMENTS, FIELD, UNION_MEMBER, UNION_MEMBER]"
proof -
  note t = edge_order [OF cyclic_run cyclic_parse]
  have m: "(''Query'', Root_node) \<in> set (nodes cyclic_graph)"
    by (simp add: cyclic_graph_def)
  have fs: "node_fields Root_node
      = Some [info ''a'' ''Item'', info ''b'' ''Item'', info ''ghost'' ''Ghost'']"
    by (simp add: Root_node_def)
  from t have "filter (\<lambda>e. source e = ''Query'' \<and> edgeType e = FIELD) (edges cyclic_graph)
      = map (\<lambda>f. field_edge ''Query'' (typeName f) (info_name f))
          [info ''a'' ''Item'', info ''b'' ''Item'', info ''ghost'' ''Ghost'']"
    using m fs by blast
  moreover have "map edgeType (edges cyclic_graph)
        = [FIELD, FIELD, FIELD, FIELD, IMPLEMENTS, FIELD, UNION_MEMBER, UNION_MEMBER]"
    by (simp add: cyclic_graph_def)
  ultimately show ?thesis using t cyclic_run by simp
qed

lemma node_edges_subset:
  "k \<in> set ks \<Longrightarrow> set (node_edges k (h k)) \<subseteq> set (concat (map (\<lambda>k. node_edges k (h k)) ks))"
  by auto

text \<open>
  Claim C4. When the target of a field, interface or union member has no record in the
  lookup table, the step still appends its edge and changes nothing else: no node is
  created. In a returned graph every edge of every node's edge group is present, no name
  without a record among the parsed types is a key of the node mapping, and there are
  documents whose graph has an edge with a target that is not a key: extraction succeeds
  on them.
\<close>

theorem dangling_targets:
  "(map_of tm (typeName f) = None \<longrightarrow>
      field_step tm cur st f
        = push_edge \<lparr> source = cur, target = typeName f, edgeType = FIELD,
                      fieldName = Some (info_name f) \<rparr> st)
   \<and> (map_of tm i = None \<longrightarrow>
        interface_step tm cur st i
          = push_edge \<lparr> source = cur, target = i, edgeType = IMPLEMENTS, fieldName = None \<rparr> st)
   \<and> (map_of tm m = None \<longrightarrow>
        member_step tm cur st m
          = push_edge \<lparr> source = cur, target = m, edgeType = UNION_MEMBER, fieldName = None \<rparr> st)
   \<and> (extractGraph doc = Some (Inr g) \<longrightarrow> parseIntrospection doc = Inr p \<longrightarrow>
        (\<forall>(k, n) \<in> set (nodes g). set (node_edges k n) \<subseteq> set (edges g))
        \<and> fst ` set (nodes g) \<subseteq> type_name ` set (parsed_types p))
   \<and> (\<exists>doc' g' e. extractGraph doc' = Some (Inr g') \<and> e \<in> set (edges g')
          \<and> target e \<notin> fst ` set (nodes g'))"
proof (intro conjI impI)
  show "field_step tm cur st f
        = push_edge \<lparr> source = cur, target = typeName f, edgeType = FIELD,
                      fieldName = Some (info_name f) \<rparr> st"
    if "map_of tm (typeName f) = None"
    using that by (simp add: field_step_def discover_def push_edge_def)
  show "interface_step tm cur st i
          = push_edge \<lparr> source = cur, target = i, edgeType = IMPLEMENTS, fieldName = None \<rparr> st"
    if "map_of tm i = None"
    using that by (simp add: interface_step_def discover_def push_edge_def)
  show "member_step tm cur st m
          = push_edge \<lparr> source = cur, target = m, edgeType = UNION_MEMBER, fieldName = None \<rparr> st"
    if "map_of tm m = None"
    using that by (simp add: member_step_def discover_def push_edge_def)
  have "field_edge ''Query'' ''Ghost'' ''ghost'' \<in> set (edges cyclic_graph)"
    by (simp add: cyclic_graph_def)
  moreover have "target (field_edge ''Query'' ''Ghost'' ''ghost'') \<notin> fst ` set (nodes cyclic_graph)"
    by (simp add: cyclic_graph_def)
  ultimately show "\<exists>doc' g' e. extractGraph doc' = Some (Inr g') \<and> e \<in> set (edges g')
          \<and> target e \<notin> fst ` set (nodes g')"
    using cyclic_run by blast
next
  assume a: "extractGraph doc = Some (Inr g)" "parseIntrospection doc = Inr p"
  from a(1) obtain p' q d ks where
    f: "parseIntrospection doc = Inr p'"
       "nodes g = map (\<lambda>k. (k, nd (buildTypeMap (parsed_types p')) k)) ks"
       "edges g = concat (map (\<lambda>k. node_edges k (nd (buildTypeMap (parsed_types p')) k)) ks)"
       "\<forall>k\<in>set ks. map_of (buildTypeMap (parsed_types p')) k \<noteq> None"
    by (rule extractGraph_facts)
  from f(1) a(2) have pp: "p' = p" by simp
  note n = f(2) [unfolded pp] and e = f(3) [unfolded pp] and r = f(4) [unfolded pp]
  have keys: "fst ` set (nodes g) = set ks" by (simp only: n keyset_keyed)
  show "\<forall>(k, n) \<in> set (nodes g). set (node_edges k n) \<subseteq> set (edges g)"
  proof (clarify)
    fix k n x
    assume "(k, n) \<in> set (nodes g)" and x: "x \<in> set (node_edges k n)"
    then have kn: "k \<in> set ks" "n = nd (buildTypeMap (parsed_types p)) k"
      unfolding n by auto
    from node_edges_subset [OF kn(1), of "nd (buildTypeMap (parsed_types p))"] x kn(2)
    show "x \<in> set (edges g)" unfolding e by blast
  qed
  show "fst ` set (nodes g) \<subseteq> type_name ` set (parsed_types p)"
    unfolding keys using r by (auto simp: buildTypeMap_None)
qed

theorem dangling_targets_witness:
  "extractGraph cyclic_doc = Some (Inr cyclic_graph)
   \<and> set (node_edges ''Query'' Root_node) \<subseteq> set (edges cyclic_graph)
   \<and> field_edge ''Query'' ''Ghost'' ''ghost'' \<in> set (node_edges ''Query'' Root_node)
   \<and> fst ` set (nodes cyclic_graph) \<subseteq> type_name ` set (parsed_types cyclic_parsed)
   \<and> ''Ghost'' \<notin> fst ` set (nodes cyclic_graph)
   \<and> field_step [] ''Query'' (initial_state Root_node) (info ''ghost'' ''Ghost'')
       = push_edge (field_edge ''Query'' ''Ghost'' ''ghost'') (initial_state Root_node)"
proof -
  note t = dangling_targets [of "[]" "info ''ghost'' ''Ghost''" "''Query''"
      "initial_state Root_node" "''Ghost''" "''Ghost''" cyclic_doc cyclic_graph cyclic_parsed]
  have m: "(''Query'', Root_node) \<in> set (nodes cyclic_graph)"
    by (simp add: cyclic_graph_def)
  from t cyclic_run cyclic_parse m
  have 1: "set (node_edges ''Query'' Root_node) \<subseteq> set (edges cyclic_graph)"
    and 2: "fst ` set (nodes cyclic_graph) \<subseteq> type_name ` set (parsed_types cyclic_parsed)"
    by blast+
  have 3: "field_edge ''Query'' ''Ghost'' ''ghost'' \<in> set (node_edges ''Query'' Root_node)"
    by (simp add: node_edges_def Root_node_def)
  have 4: "''Ghost'' \<notin> fst ` set (nodes cyclic_graph)"
    by (simp add: cyclic_graph_def)
  from t have 5: "field_step [] ''Query'' (initial_state Root_node) (info ''ghost'' ''Ghost'')
       = push_edge (field_edge ''Query'' ''Ghost'' ''ghost'') (initial_state Root_node)"
    by simp
  from cyclic_run 1 2 3 4 5 show ?thesis by blast
qed

section \<open>Claims about errors and the parser\<close>

lemma parse_Inl:
  "(parseIntrospection doc = Inl e) =
     ((data doc = None \<and> e = TypeError ''__schema'')
      \<or> (e = InvalidInputError \<and>
          (\<exists>r. data doc = Some r
             \<and> (schema r = None \<or> (\<exists>s. schema r = Some s \<and> types s = None)))))"
  by (auto simp: parseIntrospection_def split: option.splits)

lemma errors_distinct:
  "InvalidInputError \<noteq> NoRootTypeError" "InvalidInputError \<noteq> RootTypeNotFoundError q"
  "NoRootTypeError \<noteq> RootTypeNotFoundError q" "InvalidInputError \<noteq> TypeError t"
  "NoRootTypeError \<noteq> TypeError t" "RootTypeNotFoundError q \<noteq> TypeError t"
  by (simp_all add: InvalidInputError_def NoRootTypeError_def RootTypeNotFoundError_def)

lemma RootTypeNotFoundError_inj:
  "(RootTypeNotFoundError q = RootTypeNotFoundError q') = (q = q')"
  by (simp add: RootTypeNotFoundError_def)

lemma extractGraph_parse_error:
  "parseIntrospection doc = Inl e \<Longrightarrow> extractGraph doc = Some (Inl e)"
  by (simp add: extractGraph_def)

lemma extractGraph_no_root:
  "parseIntrospection doc = Inr p \<Longrightarrow> queryTypeName p = None \<Longrightarrow>
     extractGraph doc = Some (Inl NoRootTypeError)"
  by (simp add: extractGraph_def)

lemma extractGraph_root_missing:
  "parseIntrospection doc = Inr p \<Longrightarrow> queryTypeName p = Some q \<Longrightarrow>
     map_of (buildTypeMap (parsed_types p)) q = None \<Longrightarrow>
     extractGraph doc = Some (Inl (RootTypeNotFoundError q))"
  using parse_query_nonempty [of doc p q] by (simp add: extractGraph_def Let_def)

lemma extractGraph_graph:
  "parseIntrospection doc = Inr p \<Longrightarrow> queryTypeName p = Some q \<Longrightarrow>
     map_of (buildTypeMap (parsed_types p)) q = Some d \<Longrightarrow>
     \<exists>g. extractGraph doc = Some (Inr g)"
  using extractGraph_run by blast

text \<open>
  The outcomes of extraction, all of them. The \<open>TypeError\<close> of the parser is raised exactly
  when \<^verbatim>\<open>data\<close> is null or absent; InvalidInputError exactly when \<^verbatim>\<open>data\<close> is there and its
  schema object or the schema's types sequence is missing; NoRootTypeError exactly when
  parsing succeeds and the parser reports no query-type name; RootTypeNotFoundError (for
  the reported name) exactly when the parser reports a name that no parsed record has;
  and a graph is returned exactly when the reported name is the name of a parsed record.
\<close>

lemma extraction_outcomes:
  "(extractGraph doc = Some (Inl (TypeError ''__schema'')) \<longleftrightarrow> data doc = None)
   \<and> (extractGraph doc = Some (Inl InvalidInputError)
      \<longleftrightarrow> (\<exists>r. data doc = Some r
             \<and> (schema r = None \<or> (\<exists>s. schema r = Some s \<and> types s = None))))
   \<and> (extractGraph doc = Some (Inl NoRootTypeError)
      \<longleftrightarrow> (\<exists>p. parseIntrospection doc = Inr p \<and> queryTypeName p = None))
   \<and> (extractGraph doc = Some (Inl (RootTypeNotFoundError q))
      \<longleftrightarrow> (\<exists>p. parseIntrospection doc = Inr p \<and> queryTypeName p = Some q
                \<and> q \<notin> type_name ` set (parsed_types p)))
   \<and> ((\<exists>g. extractGraph doc = Some (Inr g))
      \<longleftrightarrow> (\<exists>p q. parseIntrospection doc = Inr p \<and> queryTypeName p = Some q
                \<and> q \<in> type_name ` set (parsed_types p)))
   \<and> ((\<exists>g. extractGraph doc = Some (Inr g))
       \<or> extractGraph doc = Some (Inl (TypeError ''__schema''))
       \<or> extractGraph doc = Some (Inl InvalidInputError)
       \<or> extractGraph doc = Some (Inl NoRootTypeError)
       \<or> (\<exists>n. extractGraph doc = Some (Inl (RootTypeNotFoundError n))))"
proof (cases "parseIntrospection doc")
  case (Inl e)
  show ?thesis
  proof (cases "data doc")
    case None
    with Inl have e: "e = TypeError ''__schema''" by (simp add: parse_Inl)
    have x: "extractGraph doc = Some (Inl (TypeError ''__schema''))"
      using extractGraph_parse_error [OF Inl] e by simp
    show ?thesis
      using Inl None by (simp add: x errors_distinct errors_distinct [symmetric])
  next
    case (Some r)
    with Inl have e: "e = InvalidInputError"
      and s: "schema r = None \<or> (\<exists>s. schema r = Some s \<and> types s = None)"
      by (simp_all add: parse_Inl)
    have x: "extractGraph doc = Some (Inl InvalidInputError)"
      using extractGraph_parse_error [OF Inl] e by simp
    show ?thesis
      using Inl Some s by (simp add: x errors_distinct errors_distinct [symmetric])
  qed
next
  case (Inr p)
  then obtain r where r: "data doc = Some r"
    and s: "\<not> (schema r = None \<or> (\<exists>s. schema r = Some s \<and> types s = None))"
    by (auto simp: parseIntrospection_def split: option.splits)
  show ?thesis
  proof (cases "queryTypeName p")
    case None
    have x: "extractGraph doc = Some (Inl NoRootTypeError)"
      by (rule extractGraph_no_root [OF Inr None])
    show ?thesis
      using Inr None r s by (simp add: x errors_distinct errors_distinct [symmetric])
  next
    case (Some n)
    show ?thesis
    proof (cases "map_of (buildTypeMap (parsed_types p)) n")
      case None
      have x: "extractGraph doc = Some (Inl (RootTypeNotFoundError n))"
        by (rule extractGraph_root_missing [OF Inr Some None])
      from None have "n \<notin> type_name ` set (parsed_types p)"
        by (simp add: buildTypeMap_None)
      then show ?thesis
        using Inr Some r s
        by (auto simp add: x errors_distinct errors_distinct [symmetric] RootTypeNotFoundError_inj)
    next
      case (Some d)
      from extractGraph_graph [OF Inr \<open>queryTypeName p = Some n\<close> Some]
      obtain g where x: "extractGraph doc = Some (Inr g)" by blast
      from Some have "n \<in> type_name ` set (parsed_types p)"
        using buildTypeMap_None [of "parsed_types p" n] by auto
      then show ?thesis
        using Inr \<open>queryTypeName p = Some n\<close> r s by (auto simp add: x)
    qed
  qed
qed

lemma no_types_run: "extractGraph no_types_doc = Some (Inl InvalidInputError)"
  by code_simp

lemma no_root_run: "extractGraph no_root_doc = Some (Inl NoRootTypeError)"
  by code_simp

lemma root_missing_run: "extractGraph root_missing_doc = Some (Inl (RootTypeNotFoundError ''Query''))"
  by code_simp

text \<open>
  Claim C5, where the code departs from it. A document whose \<^verbatim>\<open>data\<close> member is null lacks
  its schema object, so the claim asks for InvalidInputError; the parser reads
  \<^verbatim>\<open>data.__schema\<close> before its guard and extraction ends with the runtime's
  \<open>TypeError\<close>, which is none of the three errors. (On the three literal error scenarios
  the code raises the error the claim names.)
\<close>

theorem null_data_TypeError:
  "data null_data_doc = None
   \<and> parseIntrospection null_data_doc = Inl (TypeError ''__schema'')
   \<and> extractGraph null_data_doc = Some (Inl (TypeError ''__schema''))
   \<and> TypeError ''__schema'' \<noteq> InvalidInputError
   \<and> TypeError ''__schema'' \<noteq> NoRootTypeError
   \<and> TypeError ''__schema'' \<noteq> RootTypeNotFoundError ''Query''
   \<and> extractGraph no_types_doc = Some (Inl InvalidInputError)
   \<and> extractGraph no_root_doc = Some (Inl NoRootTypeError)
   \<and> extractGraph root_missing_doc = Some (Inl (RootTypeNotFoundError ''Query''))"
proof -
  have 1: "data null_data_doc = None" by (simp add: null_data_doc_def)
  have 2: "parseIntrospection null_data_doc = Inl (TypeError ''__schema'')"
    by (simp add: parseIntrospection_def 1)
  have 3: "extractGraph null_data_doc = Some (Inl (TypeError ''__schema''))"
    by (rule extractGraph_parse_error [OF 2])
  from 1 2 3 no_types_run no_root_run root_missing_run show ?thesis
    by (simp add: errors_distinct [symmetric])
qed

lemma parse_Inr:
  "data doc = Some r \<Longrightarrow> schema r = Some s \<Longrightarrow> types s = Some ts \<Longrightarrow>
     parseIntrospection doc
       = Inr \<lparr> parsed_types = filter (\<lambda>t. \<not> startsWith (type_name t) ''__'') ts,
               queryTypeName = (case queryType s of None \<Rightarrow> None
                                | Some n \<Rightarrow> if n = [] then None else Some n) \<rparr>"
  by (simp add: parseIntrospection_def)

lemma parsed_types_no_meta:
  "parseIntrospection doc = Inr p \<Longrightarrow> t \<in> set (parsed_types p) \<Longrightarrow>
     \<not> startsWith (type_name t) ''__''"
  by (auto simp: parseIntrospection_def split: option.splits)

lemma name_nd: "map_of (buildTypeMap ts) k = Some d \<Longrightarrow> name (nd (buildTypeMap ts) k) = k"
  using buildTypeMap_Some [of ts k d] by (simp add: nd_def createTypeNode_def)

text \<open>
  Claim C6. On a document with a schema and a types sequence the parser succeeds; its type
  list is the input list without the records whose name starts with the double
  underscore, and its query-type name is null when the schema declares no query type. In
  every graph that extraction returns, no key of the node mapping, no node's name and not
  the root's name starts with the double underscore.
\<close>

theorem meta_types_filtered:
  "(data doc = Some r \<longrightarrow> schema r = Some s \<longrightarrow> types s = Some ts \<longrightarrow>
      (\<exists>p. parseIntrospection doc = Inr p
           \<and> parsed_types p = filter (\<lambda>t. \<not> startsWith (type_name t) ''__'') ts
           \<and> (queryType s = None \<longrightarrow> queryTypeName p = None)))
   \<and> (extractGraph doc = Some (Inr g) \<longrightarrow>
        (\<forall>(k, n) \<in> set (nodes g). \<not> startsWith k ''__'' \<and> name n = k)
        \<and> \<not> startsWith (name (rootType g)) ''__'')"
proof (intro conjI impI)
  assume "data doc = Some r" and "schema r = Some s" and "types s = Some ts"
  from parse_Inr [OF this]
  show "\<exists>p. parseIntrospection doc = Inr p
           \<and> parsed_types p = filter (\<lambda>t. \<not> startsWith (type_name t) ''__'') ts
           \<and> (queryType s = None \<longrightarrow> queryTypeName p = None)"
    by simp
next
  assume a: "extractGraph doc = Some (Inr g)"
  from a obtain p q d ks where
    f: "parseIntrospection doc = Inr p" "type_name d = q" "rootType g = createTypeNode d"
       "nodes g = map (\<lambda>k. (k, nd (buildTypeMap (parsed_types p)) k)) ks"
       "q \<in> set ks"
       "\<forall>k\<in>set ks. map_of (buildTypeMap (parsed_types p)) k \<noteq> None"
    by (rule extractGraph_facts)
  have nm: "\<not> startsWith k ''__'' \<and> name (nd (buildTypeMap (parsed_types p)) k) = k"
    if "k \<in> set ks" for k
  proof -
    from that f(6) obtain d' where d': "map_of (buildTypeMap (parsed_types p)) k = Some d'"
      by blast
    from buildTypeMap_Some [OF d'] have "d' \<in> set (parsed_types p)" "type_name d' = k"
      by simp_all
    with parsed_types_no_meta [OF f(1)] name_nd [OF d'] show ?thesis by blast
  qed
  show "\<forall>(k, n) \<in> set (nodes g). \<not> startsWith k ''__'' \<and> name n = k"
    unfolding f(4) using nm by auto
  have "name (rootType g) = q" by (rule root_name [OF f(3) f(2)])
  with nm [OF f(5)] show "\<not> startsWith (name (rootType g)) ''__''" by simp
qed

theorem meta_types_filtered_witness:
  "parseIntrospection cyclic_doc = Inr cyclic_parsed
   \<and> parsed_types cyclic_parsed = [Root_type, Item_type, Node_type]
   \<and> startsWith (type_name Meta_type) ''__''
   \<and> extractGraph cyclic_doc = Some (Inr cyclic_graph)
   \<and> \<not> startsWith ''Item'' ''__'' \<and> name Item_node = ''Item''
   \<and> \<not> startsWith (name (rootType cyclic_graph)) ''__''
   \<and> (\<exists>p. parseIntrospection no_root_doc = Inr p \<and> parsed_types p = [] \<and> queryTypeName p = None)"
proof -
  have m: "(''Item'', Item_node) \<in> set (nodes cyclic_graph)"
    by (simp add: cyclic_graph_def)
  from meta_types_filtered [of cyclic_doc _ _ _ cyclic_graph] cyclic_run m
  have 1: "\<not> startsWith ''Item'' ''__'' \<and> name Item_node = ''Item''"
    and 2: "\<not> startsWith (name (rootType cyclic_graph)) ''__''"
    by blast+
  have 3: "parsed_types cyclic_parsed = [Root_type, Item_type, Node_type]"
    by (simp add: cyclic_parsed_def)
  have 4: "startsWith (type_name Meta_type) ''__''"
    by (simp add: Meta_type_def startsWith_def)
  have "data no_root_doc = Some \<lparr> schema = Some \<lparr> queryType = None, mutationType = None,
          subscriptionType = None, types = Some [] \<rparr> \<rparr>"
    by (simp add: no_root_doc_def)
  with meta_types_filtered [of no_root_doc
      "\<lparr> schema = Some \<lparr> queryType = None, mutationType = None,
          subscriptionType = None, types = Some [] \<rparr> \<rparr>"
      "\<lparr> queryType = None, mutationType = None,
          subscriptionType = None, types = Some [] \<rparr>" "[]"]
  have 5: "\<exists>p. parseIntrospection no_root_doc = Inr p \<and> parsed_types p = [] \<and> queryTypeName p = None"
    by simp
  from cyclic_parse cyclic_run 1 2 3 4 5 show ?thesis by blast
qed

section \<open>Claims about the normalizer\<close>

text \<open>
  Claim C7, as the code has it. The node of a record has isComposite true exactly for the
  kinds OBJECT, INTERFACE and UNION; isRelay true exactly when the name ends with
  "Connection" or "Edge" or is "PageInfo"; isBuiltIn true exactly when the name starts
  with the double underscore or is one of String, Int, Float, Boolean, ID. Its field
  sequence is absent when the record has no field sequence or an empty one; otherwise it
  has one entry per field, with the field's name and description and with the resolved
  base name of the field's type, "Unknown" standing in when the resolution yields null
  or the empty string.
\<close>

theorem createTypeNode_flags:
  "isComposite (createTypeNode td) = (type_kind td \<in> {OBJECT, INTERFACE, UNION})
   \<and> isRelay (createTypeNode td)
       = (suffix ''Connection'' (type_name td) \<or> suffix ''Edge'' (type_name td)
          \<or> type_name td = ''PageInfo'')
   \<and> isBuiltIn (createTypeNode td)
       = (prefix ''__'' (type_name td)
          \<or> type_name td \<in> {''String'', ''Int'', ''Float'', ''Boolean'', ''ID''})
   \<and> name (createTypeNode td) = type_name td \<and> kind (createTypeNode td) = type_kind td
   \<and> node_fields (createTypeNode td)
       = (case type_fields td of
            None \<Rightarrow> None
          | Some fs \<Rightarrow>
              if fs = [] then None
              else Some (map (\<lambda>f.
                     \<lparr> info_name = field_name f,
                       typeName = (case unwrapType (Some (field_type f)) of
                                     None \<Rightarrow> ''Unknown''
                                   | Some n \<Rightarrow> if n = [] then ''Unknown'' else n),
                       info_description = field_description f \<rparr>) fs))"
  by (auto simp: createTypeNode_def extractFields_def or_default_def startsWith_def
      endsWith_def BUILT_IN_SCALARS_def split: option.splits)

theorem createTypeNode_flags_witness:
  "isComposite (createTypeNode Node_type) \<and> \<not> isComposite (createTypeNode ID_type)
   \<and> isBuiltIn (createTypeNode ID_type) \<and> \<not> isRelay (createTypeNode ID_type)
   \<and> node_fields (createTypeNode ID_type) = None
   \<and> node_fields (createTypeNode (object ''ItemEdge'' [])) = None
   \<and> isRelay (createTypeNode (object ''ItemEdge'' []))
   \<and> node_fields (createTypeNode empty_ref_type) = Some [info ''f'' ''Unknown'']
   \<and> node_fields (createTypeNode Item_type) = Some [info ''owner'' ''Query'']"
  using createTypeNode_flags [of Node_type] createTypeNode_flags [of ID_type]
    createTypeNode_flags [of "object ''ItemEdge'' []"] createTypeNode_flags [of empty_ref_type]
    createTypeNode_flags [of Item_type]
  by (simp add: Node_type_def ID_type_def empty_ref_type_def empty_ref_field_def Item_type_def
      suffix_def)

theorem empty_name_counterexample:
  "unwrapType (Some (field_type empty_ref_field)) = Some []
   \<and> type_fields empty_ref_type = Some [empty_ref_field]
   \<and> node_fields (createTypeNode empty_ref_type) = Some [info ''f'' ''Unknown'']"
  by (simp add: empty_ref_type_def empty_ref_field_def createTypeNode_def extractFields_def
      or_default_def)

section \<open>The end-to-end scenario\<close>

text \<open>
  Claim C9, as the code has it. On the schema \<^verbatim>\<open>Query { device: DeviceType }\<close>,
  \<^verbatim>\<open>DeviceType { id: ID, cable: CableType }\<close>, \<^verbatim>\<open>CableType { id: ID }\<close> extraction yields
  the three nodes Query, DeviceType and CableType, and the node of the ID scalar as well
  when ID is in the type list. In both cases it yields the same four FIELD edges, in this
  order: Query to DeviceType ("device"), DeviceType to ID ("id"), DeviceType to CableType
  ("cable"), CableType to ID ("id"); the edges to ID are there whether or not ID is
  declared.
\<close>

theorem device_scenario:
  "extractGraph device_doc = Some (Inr device_graph)
   \<and> extractGraph device_doc_ID = Some (Inr device_graph_ID)
   \<and> map fst (nodes device_graph) = [''Query'', ''DeviceType'', ''CableType'']
   \<and> map fst (nodes device_graph_ID) = [''Query'', ''DeviceType'', ''ID'', ''CableType'']
   \<and> edges device_graph = edges device_graph_ID
   \<and> edges device_graph
       = [field_edge ''Query'' ''DeviceType'' ''device'',
          field_edge ''DeviceType'' ''ID'' ''id'',
          field_edge ''DeviceType'' ''CableType'' ''cable'',
          field_edge ''CableType'' ''ID'' ''id'']"
proof -
  have 1: "extractGraph device_doc = Some (Inr device_graph)" by code_simp
  have 2: "extractGraph device_doc_ID = Some (Inr device_graph_ID)" by code_simp
  show ?thesis
    by (simp add: 1 2) (simp add: device_graph_def device_graph_ID_def device_edges_def)
qed

theorem device_scenario_counterexample:
  "extractGraph device_doc = Some (Inr device_graph)
   \<and> ''ID'' \<notin> type_name ` set device_types
   \<and> length (edges device_graph) = 4
   \<and> field_edge ''DeviceType'' ''ID'' ''id'' \<in> set (edges device_graph)
   \<and> map edgeType (edges device_graph) = [FIELD, FIELD, FIELD, FIELD]"
proof -
  have 1: "extractGraph device_doc = Some (Inr device_graph)" by code_simp
  show ?thesis
    by (simp add: 1) (simp add: device_graph_def device_edges_def device_types_def)
qed

section \<open>The visited set and the keys of the node mapping\<close>

lemma discover_keys:
  "visited s = fst ` set (s_nodes s) \<Longrightarrow>
     visited (discover tm t s) = fst ` set (s_nodes (discover tm t s))"
  by (simp add: discover_def dom_update split: option.splits)

lemma source_node_edges_subset: "source ` set (node_edges k n) \<subseteq> {k}"
  by (auto dest: source_node_edges)

lemma loop_head_keys:
  assumes "loop_head tm (initial_state rootNode) st"
  shows "visited st = fst ` set (s_nodes st) \<and> set (queue st) \<subseteq> fst ` set (s_nodes st)
       \<and> source ` set (s_edges st) \<subseteq> fst ` set (s_nodes st)"
  using assms
proof (induction rule: loop_head.induct)
  case start
  show ?case by (simp add: initial_state_def)
next
  case (iterate st cur rest st')
  let ?s1 = "st \<lparr> queue := rest \<rparr>"
  from iterate.hyps(3) obtain n where
    n: "map_of (s_nodes st) cur = Some n" and st': "st' = expand tm cur n ?s1"
    by (auto simp: bfs_body_def split: option.splits)
  from iterate.IH have v: "visited st = fst ` set (s_nodes st)"
    and q: "set (queue st) \<subseteq> fst ` set (s_nodes st)"
    and e: "source ` set (s_edges st) \<subseteq> fst ` set (s_nodes st)"
    by blast+
  have k1: "visited ?s1 = fst ` set (s_nodes ?s1)" using v by simp
  let ?F = "fresh tm (visited st) (node_targets n)"
  have x: "st' = st \<lparr> s_nodes := s_nodes st @ map (\<lambda>k. (k, nd tm k)) ?F,
                        s_edges := s_edges st @ node_edges cur n,
                        visited := visited st \<union> set ?F,
                        queue := rest @ ?F \<rparr>"
    unfolding st' expand_eq discover_all_fresh [OF k1] by (simp add: push_edges_def)
  have cur: "cur \<in> fst ` set (s_nodes st)" using q iterate.hyps(2) by simp
  have kF: "fst ` set (map (\<lambda>k. (k, nd tm k)) ?F) = set ?F" by (rule keyset_keyed)
  have 1: "visited st' = fst ` set (s_nodes st')"
    unfolding x using v kF by (simp add: image_Un)
  have 2: "set (queue st') \<subseteq> fst ` set (s_nodes st')"
    unfolding x using q iterate.hyps(2) kF by (auto simp: image_Un)
  have 3: "source ` set (s_edges st') \<subseteq> fst ` set (s_nodes st')"
    unfolding x using e cur source_node_edges_subset [of cur n] by (auto simp: image_Un)
  from 1 2 3 show ?case by blast
qed

lemma extractGraph_lookup_succeeds: "extractGraph doc \<noteq> Some (Inl (TypeError ''fields''))"
proof (cases "parseIntrospection doc")
  case (Inl e)
  then have "e = TypeError ''__schema'' \<or> e = InvalidInputError" by (auto simp: parse_Inl)
  with extractGraph_parse_error [OF Inl] show ?thesis
    by (auto simp: errors_distinct errors_distinct [symmetric])
next
  case (Inr p)
  show ?thesis
  proof (cases "queryTypeName p")
    case None
    from extractGraph_no_root [OF Inr None] show ?thesis by (simp add: errors_distinct)
  next
    case (Some q)
    show ?thesis
    proof (cases "map_of (buildTypeMap (parsed_types p)) q")
      case None
      from extractGraph_root_missing [OF Inr Some None] show ?thesis
        by (simp add: errors_distinct)
    next
      case (Some d)
      from extractGraph_graph [OF Inr \<open>queryTypeName p = Some q\<close> Some] show ?thesis by auto
    qed
  qed
qed

text \<open>
  Claim C10. At every head of the loop the visited set equals the key set of the node
  mapping, the queue holds keys only, so that the lookup of the dequeued name succeeds,
  and every edge's source is a key. The steps inside the iteration keep visited set and
  key set equal. Extraction never fails on the lookup, and in a returned graph every
  edge's source is a key of the node mapping.
\<close>

theorem visited_equals_keys:
  "(loop_head tm (initial_state rootNode) st \<longrightarrow>
      visited st = fst ` set (s_nodes st) \<and> set (queue st) \<subseteq> fst ` set (s_nodes st)
      \<and> source ` set (s_edges st) \<subseteq> fst ` set (s_nodes st)
      \<and> (\<forall>cur rest. queue st = cur # rest \<longrightarrow> (\<exists>st'. bfs_body tm cur rest st = Inr st')))
   \<and> (visited s = fst ` set (s_nodes s) \<longrightarrow>
        visited (discover tm t s) = fst ` set (s_nodes (discover tm t s))
        \<and> visited (push_edge e s) = fst ` set (s_nodes (push_edge e s)))
   \<and> extractGraph doc \<noteq> Some (Inl (TypeError ''fields''))
   \<and> (extractGraph doc = Some (Inr g) \<longrightarrow> source ` set (edges g) \<subseteq> fst ` set (nodes g))"
proof (intro conjI impI allI)
  assume l: "loop_head tm (initial_state rootNode) st"
  note k = loop_head_keys [OF l]
  from k show "visited st = fst ` set (s_nodes st)" by blast
  from k show "set (queue st) \<subseteq> fst ` set (s_nodes st)" by blast
  from k show "source ` set (s_edges st) \<subseteq> fst ` set (s_nodes st)" by blast
  fix cur rest
  assume "queue st = cur # rest"
  with k have "cur \<in> fst ` set (s_nodes st)" by auto
  then obtain n where "map_of (s_nodes st) cur = Some n"
    by (metis map_of_eq_None_iff not_None_eq)
  then show "\<exists>st'. bfs_body tm cur rest st = Inr st'" by (simp add: bfs_body_def)
next
  assume "visited s = fst ` set (s_nodes s)"
  then show "visited (discover tm t s) = fst ` set (s_nodes (discover tm t s))"
    by (rule discover_keys)
next
  assume "visited s = fst ` set (s_nodes s)"
  then show "visited (push_edge e s) = fst ` set (s_nodes (push_edge e s))"
    by (simp add: push_edge_def)
next
  show "extractGraph doc \<noteq> Some (Inl (TypeError ''fields''))"
    by (rule extractGraph_lookup_succeeds)
next
  assume "extractGraph doc = Some (Inr g)"
  then obtain p ks where
    f: "parseIntrospection doc = Inr p" "distinct ks"
       "nodes g = map (\<lambda>k. (k, nd (buildTypeMap (parsed_types p)) k)) ks"
       "edges g = concat (map (\<lambda>k. node_edges k (nd (buildTypeMap (parsed_types p)) k)) ks)"
    by (rule extractGraph_facts) (rule that)
  have keys: "fst ` set (nodes g) = set ks" by (simp only: f(3) keyset_keyed)
  show "source ` set (edges g) \<subseteq> fst ` set (nodes g)"
    unfolding keys f(4) by (auto dest: source_node_edges)
qed

theorem visited_equals_keys_witness:
  "loop_head (buildTypeMap (parsed_types cyclic_parsed)) (initial_state Root_node)
     (expand (buildTypeMap (parsed_types cyclic_parsed)) ''Query'' Root_node
        ((initial_state Root_node) \<lparr> queue := [] \<rparr>))
   \<and> queue (expand (buildTypeMap (parsed_types cyclic_parsed)) ''Query'' Root_node
        ((initial_state Root_node) \<lparr> queue := [] \<rparr>)) = [''Item'']
   \<and> visited (expand (buildTypeMap (parsed_types cyclic_parsed)) ''Query'' Root_node
        ((initial_state Root_node) \<lparr> queue := [] \<rparr>))
      = fst ` set (s_nodes (expand (buildTypeMap (parsed_types cyclic_parsed)) ''Query'' Root_node
        ((initial_state Root_node) \<lparr> queue := [] \<rparr>)))
   \<and> extractGraph cyclic_doc = Some (Inr cyclic_graph)
   \<and> source ` set (edges cyclic_graph) \<subseteq> fst ` set (nodes cyclic_graph)"
proof -
  let ?tm = "buildTypeMap (parsed_types cyclic_parsed)"
  let ?st0 = "initial_state Root_node"
  let ?st1 = "expand ?tm ''Query'' Root_node (?st0 \<lparr> queue := [] \<rparr>)"
  have q0: "queue ?st0 = ''Query'' # []"
    by (simp add: initial_state_def Root_node_def)
  have b: "bfs_body ?tm ''Query'' [] ?st0 = Inr ?st1"
    by (simp add: bfs_body_def initial_state_def Root_node_def)
  have l: "loop_head ?tm ?st0 ?st1"
    by (rule loop_head.iterate [OF loop_head.start q0 b])
  have q1: "queue ?st1 = [''Item'']" by code_simp
  note t = visited_equals_keys [of ?tm Root_node ?st1 ?st0 "''Item''"
      "field_edge ''Query'' ''Item'' ''a''" cyclic_doc cyclic_graph]
  from t [THEN conjunct1, THEN mp, OF l]
  have v: "visited ?st1 = fst ` set (s_nodes ?st1)" by (rule conjunct1)
  from t [THEN conjunct2, THEN conjunct2, THEN conjunct2, THEN mp, OF cyclic_run]
  have e: "source ` set (edges cyclic_graph) \<subseteq> fst ` set (nodes cyclic_graph)" .
  show ?thesis
    by (intro conjI) (rule l q1 v cyclic_run e)+
qed

end
